theory Spec2Isabelle
  imports Main
begin

section \<open>Strings and arrays of the host language\<close>

text \<open>
  Strings are lists of characters.  The methods compare strings, join them, split them at
  the slash, look for a dot and test prefixes made of ASCII characters, so a string of
  the host may be read in any encoding that keeps the ASCII characters as single
  characters which occur nowhere else: Latin-1 for a string of characters below 256, as
  in the examples, or UTF-8 for any string.

  \<open>String.prototype.toLowerCase\<close> belongs to the host, not to the repository: it folds
  every cased letter of the host's character data, not the letters A to Z alone.  It is
  a parameter, named \<open>toLowerCase\<close>, of each definition that calls it, and the theorems
  say what they need of it.
\<close>

text \<open>
  \<open>s.split(sep)\<close> for a one-character separator: the pieces between the separators, in
  order; a string without the separator is its own single piece, and the empty string
  gives one empty piece.
\<close>

fun split :: "char \<Rightarrow> string \<Rightarrow> string list" where
  "split sep [] = [[]]"
| "split sep (c # cs) =
     (if c = sep then [] # split sep cs
      else (case split sep cs of
              piece # pieces \<Rightarrow> (c # piece) # pieces
            | [] \<Rightarrow> [[c]]))"

definition startsWith :: "string \<Rightarrow> string \<Rightarrow> bool" where
  "startsWith s p = (take (length p) s = p)"

text \<open>\<open>s.slice(a, b)\<close> for \<open>0 \<le> a \<le> b\<close>.\<close>

definition slice :: "nat \<Rightarrow> nat \<Rightarrow> string \<Rightarrow> string" where
  "slice a b s = take (b - a) (drop a s)"

text \<open>Reading an array at an index: \<open>undefined\<close> (here \<open>None\<close>) out of range.\<close>

definition nth_opt :: "'a list \<Rightarrow> nat \<Rightarrow> 'a option" where
  "nth_opt xs i = (if i < length xs then Some (xs ! i) else None)"

section \<open>The store\<close>

text \<open>
  An association is the object \<open>{longUrl, count, active}\<close>; its field \<open>count\<close> is called
  \<open>hitCount\<close> here, since \<open>count\<close> is also the name of a method.  The source's numbers
  are doubles; a hit count starts at 0 and changes only by \<open>count + 1\<close>, which on a
  double holding a natural number is exact below \<open>2^53\<close> and leaves \<open>2^53\<close> as it is
  (\<open>2^53 + 1\<close> rounds to it).  So a hit count is a natural number, at most \<open>2^53\<close>.
  The collection is a \<open>Map\<close> from alias to association: an association list with
  distinct keys in insertion order, which is the order \<open>forEach\<close> visits.
\<close>

definition plus_one :: "nat \<Rightarrow> nat" where
  "plus_one n = (if n < 2 ^ 53 then n + 1 else n)"

record assoc =
  longUrl :: string
  hitCount :: nat
  active :: bool

record UrlShortener =
  baseUrl :: string
  collection :: "(string \<times> assoc) list"

definition constructor :: "string \<Rightarrow> UrlShortener" where
  "constructor domain = \<lparr>baseUrl = domain, collection = []\<rparr>"

text \<open>\<open>Map.set\<close>: an existing key keeps its place, a new key goes to the end.\<close>

fun map_set :: "string \<Rightarrow> assoc \<Rightarrow> (string \<times> assoc) list \<Rightarrow> (string \<times> assoc) list" where
  "map_set k v [] = [(k, v)]"
| "map_set k v (p # m) = (if fst p = k then (k, v) # m else p # map_set k v m)"

section \<open>Results\<close>

text \<open>
  A method returns \<open>{value: v}\<close>, \<open>{error: {code, message}}\<close> or \<open>{}\<close>.  A \<open>TypeError\<close>
  (reading a property of \<open>undefined\<close>) is the only exception the methods could raise.
\<close>

datatype js_value = Str string | Num nat

datatype result = Value js_value | Error string string | Empty

datatype js_exception = TypeError

definition error_code :: "result \<Rightarrow> string option" where
  "error_code r = (case r of Error c m \<Rightarrow> Some c | _ \<Rightarrow> None)"

section \<open>Auxiliary methods\<close>

text \<open>
  \<open>_generateHash\<close> is \<open>Math.random().toString(36).slice(5, 12)\<close>.  The random draw is an
  input of the model: \<open>rnd\<close> is the base-36 text of the number drawn, \<open>0\<close> or \<open>0.\<close>
  followed by digits \<open>0..9a..z\<close> (for example \<open>0.i\<close> for one half).
\<close>

definition base36_digit :: "char \<Rightarrow> bool" where
  "base36_digit c = (c \<in> set ''0123456789abcdefghijklmnopqrstuvwxyz'')"

definition random_base36 :: "string \<Rightarrow> bool" where
  "random_base36 rnd =
     (rnd = ''0'' \<or> (take 2 rnd = ''0.'' \<and> drop 2 rnd \<noteq> [] \<and> list_all base36_digit (drop 2 rnd)))"

definition generateHash :: "string \<Rightarrow> string" where
  "generateHash rnd = slice 5 12 rnd"

definition syntaxError :: "string \<Rightarrow> result" where
  "syntaxError url = Error ''URL_SYNTAX'' (''URL_SYNTAX: bad url '' @ url)"

text \<open>
  \<open>_urlSyntaxError\<close>: \<open>Inr None\<close> is the source's \<open>false\<close>.  The disjunction is evaluated
  left to right, so the third piece is read only when the prefix test has passed.
\<close>

definition urlSyntaxError :: "(string \<Rightarrow> string) \<Rightarrow> string \<Rightarrow> js_exception + result option" where
  "urlSyntaxError toLowerCase url =
     (let urlParts = split CHR ''/'' url in
      if \<not> (startsWith (toLowerCase url) ''http://'' \<or> startsWith (toLowerCase url) ''https://'')
      then Inr (Some (syntaxError url))
      else (case nth_opt urlParts 2 of
              None \<Rightarrow> Inl TypeError
            | Some authority \<Rightarrow>
                if length authority = 0 then Inr (Some (syntaxError url))
                else if CHR ''.'' \<notin> set authority then Inr (Some (syntaxError url))
                else Inr None))"

definition notFound :: result where
  "notFound = Error ''NOT_FOUND'' ''url was never registered for this service''"

definition isSameOrigin :: "(string \<Rightarrow> string) \<Rightarrow> UrlShortener \<Rightarrow> string \<Rightarrow> bool" where
  "isSameOrigin toLowerCase this url =
     (let urlParts = split CHR ''/'' (toLowerCase url) in
      if nth_opt urlParts 2 = Some (baseUrl this) then True else False)"

section \<open>The four methods\<close>

text \<open>
  Each method takes the store and returns its result with the store as it leaves it.
  A \<open>forEach\<close> is a fold over the entries in insertion order, the collection being
  updated on the way; its callback only ever sets the key it is visiting, so the entry it
  is given is the one the collection held when the loop began.
\<close>

definition add_each :: "string \<Rightarrow> string \<times> assoc \<Rightarrow>
    (string \<times> assoc) list \<times> string option \<Rightarrow> (string \<times> assoc) list \<times> string option" where
  "add_each lc entry st =
     (if longUrl (snd entry) = lc
      then (map_set (fst entry) ((snd entry)\<lparr>active := True\<rparr>) (fst st), Some (fst entry))
      else st)"

definition shortUrl_of :: "string list \<Rightarrow> string \<Rightarrow> string \<Rightarrow> string" where
  "shortUrl_of urlParts domain alias = hd urlParts @ ''//'' @ domain @ ''/'' @ alias"

definition add :: "(string \<Rightarrow> string) \<Rightarrow> string \<Rightarrow> string \<Rightarrow> UrlShortener \<Rightarrow> js_exception + result \<times> UrlShortener" where
  "add toLowerCase rnd url this =
     (case urlSyntaxError toLowerCase url of
        Inl e \<Rightarrow> Inl e
      | Inr (Some err) \<Rightarrow> Inr (err, this)
      | Inr None \<Rightarrow>
          if isSameOrigin toLowerCase this url
          then Inr (Error ''DOMAIN'' ''longUrl domain is equal to SHORTENER_DOMAIN'', this)
          else
            (let st = fold (add_each (toLowerCase url)) (collection this) (collection this, None);
                 urlParts = split CHR ''/'' (toLowerCase url);
                 hash = generateHash rnd;
                 created = (Value (Str (shortUrl_of urlParts (baseUrl this) hash)),
                    this\<lparr>collection :=
                      map_set hash \<lparr>longUrl = toLowerCase url, hitCount = 0, active = True\<rparr> (fst st)\<rparr>)
             in case snd st of
                  None \<Rightarrow> Inr created
                | Some exists \<Rightarrow>
                    if exists = [] then Inr created
                    else Inr (Value (Str (shortUrl_of urlParts (baseUrl this) exists)),
                              this\<lparr>collection := fst st\<rparr>)))"

definition queryNotFound :: "string \<Rightarrow> result" where
  "queryNotFound url = Error ''NOT_FOUND'' (''NOT_FOUND: '' @ url @ '' not found'')"

text \<open>
  \<open>collection.get(uniqueHash)\<close> is \<open>undefined\<close> when \<open>uniqueHash\<close> is \<open>undefined\<close>: every
  key of the collection is a string.
\<close>

definition query :: "(string \<Rightarrow> string) \<Rightarrow> string \<Rightarrow> UrlShortener \<Rightarrow> js_exception + result \<times> UrlShortener" where
  "query toLowerCase url this =
     (case urlSyntaxError toLowerCase url of
        Inl e \<Rightarrow> Inl e
      | Inr (Some err) \<Rightarrow> Inr (err, this)
      | Inr None \<Rightarrow>
          if \<not> isSameOrigin toLowerCase this url
          then Inr (Error ''DOMAIN'' ''shortUrl domain is not equal to SHORTENER_DOMAIN'', this)
          else
            (case nth_opt (split CHR ''/'' url) 3 of
               None \<Rightarrow> Inr (queryNotFound url, this)
             | Some uniqueHash \<Rightarrow>
                 (case map_of (collection this) uniqueHash of
                    None \<Rightarrow> Inr (queryNotFound url, this)
                  | Some exist \<Rightarrow>
                      if longUrl exist \<noteq> [] \<and> active exist
                      then Inr (Value (Str (longUrl exist)),
                             this\<lparr>collection :=
                               map_set uniqueHash (exist\<lparr>hitCount := plus_one (hitCount exist)\<rparr>)
                                 (collection this)\<rparr>)
                      else Inr (queryNotFound url, this))))"

text \<open>The lookup by alias that \<open>count\<close> and \<open>remove\<close> start with on a same-origin url.\<close>

definition by_alias :: "(string \<Rightarrow> string) \<Rightarrow> UrlShortener \<Rightarrow> string \<Rightarrow> (string \<times> assoc) option" where
  "by_alias toLowerCase this url =
     (if isSameOrigin toLowerCase this url
      then (case nth_opt (split CHR ''/'' url) 3 of
              None \<Rightarrow> None
            | Some uniqueHash \<Rightarrow>
                (case map_of (collection this) uniqueHash of
                   None \<Rightarrow> None
                 | Some data \<Rightarrow> Some (uniqueHash, data)))
      else None)"

definition count_each :: "string \<Rightarrow> string \<times> assoc \<Rightarrow> nat option \<Rightarrow> nat option" where
  "count_each lc entry exist =
     (if longUrl (snd entry) = lc then Some (hitCount (snd entry)) else exist)"

definition count :: "(string \<Rightarrow> string) \<Rightarrow> string \<Rightarrow> UrlShortener \<Rightarrow> js_exception + result \<times> UrlShortener" where
  "count toLowerCase url this =
     (case urlSyntaxError toLowerCase url of
        Inl e \<Rightarrow> Inl e
      | Inr (Some err) \<Rightarrow> Inr (err, this)
      | Inr None \<Rightarrow>
          (case by_alias toLowerCase this url of
             Some (uniqueHash, data) \<Rightarrow> Inr (Value (Num (hitCount data)), this)
           | None \<Rightarrow>
               (case fold (count_each (toLowerCase url)) (collection this) None of
                  Some exist \<Rightarrow> Inr (Value (Num exist), this)
                | None \<Rightarrow> Inr (notFound, this))))"

definition remove_each :: "string \<Rightarrow> string \<times> assoc \<Rightarrow>
    (string \<times> assoc) list \<times> bool \<Rightarrow> (string \<times> assoc) list \<times> bool" where
  "remove_each lc entry st =
     (if longUrl (snd entry) = lc
      then (map_set (fst entry) ((snd entry)\<lparr>active := False\<rparr>) (fst st), True)
      else st)"

definition remove :: "(string \<Rightarrow> string) \<Rightarrow> string \<Rightarrow> UrlShortener \<Rightarrow> js_exception + result \<times> UrlShortener" where
  "remove toLowerCase url this =
     (case urlSyntaxError toLowerCase url of
        Inl e \<Rightarrow> Inl e
      | Inr (Some err) \<Rightarrow> Inr (err, this)
      | Inr None \<Rightarrow>
          (case by_alias toLowerCase this url of
             Some (uniqueHash, data) \<Rightarrow>
               Inr (Empty, this\<lparr>collection :=
                      map_set uniqueHash (data\<lparr>active := False\<rparr>) (collection this)\<rparr>)
           | None \<Rightarrow>
               (let st = fold (remove_each (toLowerCase url)) (collection this)
                           (collection this, False)
                in if snd st then Inr (Empty, this\<lparr>collection := fst st\<rparr>)
                   else Inr (notFound, this))))"

section \<open>Runs of the store\<close>

datatype call = Add string string | Query string | Count string | Remove string

fun exec :: "(string \<Rightarrow> string) \<Rightarrow> call \<Rightarrow> UrlShortener \<Rightarrow> js_exception + result \<times> UrlShortener" where
  "exec toLowerCase (Add rnd url) this = add toLowerCase rnd url this"
| "exec toLowerCase (Query url) this = query toLowerCase url this"
| "exec toLowerCase (Count url) this = count toLowerCase url this"
| "exec toLowerCase (Remove url) this = remove toLowerCase url this"

fun legal :: "call \<Rightarrow> bool" where
  "legal (Add rnd url) = random_base36 rnd"
| "legal (Query url) = True"
| "legal (Count url) = True"
| "legal (Remove url) = True"

text \<open>
  The states a store can be in: the constructor's, and what a method leaves when called
  on such a state (an \<open>add\<close> with a draw of \<open>Math.random\<close>).
\<close>

inductive reachable :: "(string \<Rightarrow> string) \<Rightarrow> UrlShortener \<Rightarrow> bool"
  for toLowerCase :: "string \<Rightarrow> string" where
  init: "reachable toLowerCase (constructor domain)"
| step: "reachable toLowerCase this \<Longrightarrow> legal c \<Longrightarrow> exec toLowerCase c this = Inr (r, this') \<Longrightarrow> reachable toLowerCase this'"

section \<open>Vocabulary of the proofs\<close>

text \<open>Putting the pieces back together, with the separator between them.\<close>

fun unsplit :: "char \<Rightarrow> string list \<Rightarrow> string" where
  "unsplit sep [] = []"
| "unsplit sep [x] = x"
| "unsplit sep (x # y # ys) = x @ sep # unsplit sep (y # ys)"

text \<open>
  What the methods need of the host's \<open>toLowerCase\<close>, and what the theorems assume of the
  parameter.  The host's function has these properties:
  \<^item> it folds a string piece by piece between slashes: a slash is not a letter, no
    character folds to one, and the one rule of the fold that looks at the neighbours of
    a character (the final sigma) does not look across a slash;
  \<^item> it folds no string to the empty string but the empty string;
  \<^item> it neither makes nor unmakes a dot;
  \<^item> it leaves \<open>http:\<close> and \<open>https:\<close> as they are.
  It is not assumed to work character by character, nor to keep the length of a string.
\<close>

definition is_toLowerCase :: "(string \<Rightarrow> string) \<Rightarrow> bool" where
  "is_toLowerCase toLowerCase =
     ((\<forall>s. split CHR ''/'' (toLowerCase s) = map toLowerCase (split CHR ''/'' s)) \<and>
      (\<forall>s. (toLowerCase s = []) = (s = [])) \<and>
      (\<forall>s. (CHR ''.'' \<in> set (toLowerCase s)) = (CHR ''.'' \<in> set s)) \<and>
      toLowerCase ''http:'' = ''http:'' \<and> toLowerCase ''https:'' = ''https:'')"

text \<open>The prefix test of the syntax check.\<close>

definition http_prefix :: "(string \<Rightarrow> string) \<Rightarrow> string \<Rightarrow> bool" where
  "http_prefix toLowerCase url =
     (startsWith (toLowerCase url) ''http://'' \<or> startsWith (toLowerCase url) ''https://'')"

text \<open>
  What the loops over the collection compute: the entries whose long url is \<open>lc\<close>, the
  collection with \<open>active\<close> set on them, and the key of the last of them.
\<close>

definition matching :: "string \<Rightarrow> (string \<times> assoc) list \<Rightarrow> (string \<times> assoc) list" where
  "matching lc m = filter (\<lambda>entry. longUrl (snd entry) = lc) m"

definition set_active :: "bool \<Rightarrow> string \<Rightarrow> (string \<times> assoc) list \<Rightarrow> (string \<times> assoc) list" where
  "set_active b lc m =
     map (\<lambda>entry. if longUrl (snd entry) = lc then (fst entry, (snd entry)\<lparr>active := b\<rparr>) else entry) m"

definition last_key :: "(string \<times> assoc) list \<Rightarrow> string option \<Rightarrow> string option" where
  "last_key ms d = (if ms = [] then d else Some (fst (last ms)))"

text \<open>
  The invariant of the store: the keys are distinct and have no slash; every stored long
  url is the fold of a url that is well formed and not of the store's own domain.
\<close>

definition entry_ok :: "(string \<Rightarrow> string) \<Rightarrow> string \<Rightarrow> string \<times> assoc \<Rightarrow> bool" where
  "entry_ok toLowerCase domain entry =
     (CHR ''/'' \<notin> set (fst entry) \<and>
      (\<exists>url. longUrl (snd entry) = toLowerCase url \<and>
         urlSyntaxError toLowerCase url = Inr None \<and>
         nth_opt (split CHR ''/'' (toLowerCase url)) 2 \<noteq> Some domain))"

definition inv :: "(string \<Rightarrow> string) \<Rightarrow> UrlShortener \<Rightarrow> bool" where
  "inv toLowerCase this =
     (distinct (map fst (collection this)) \<and>
      list_all (entry_ok toLowerCase (baseUrl this)) (collection this))"

text \<open>
  What \<open>add\<close> does with an accepted url: the alias it reuses (the key of the last
  matching entry, unless that key is empty), the alias of the short url it returns, and the
  collection it leaves.
\<close>

definition reused :: "string \<Rightarrow> (string \<times> assoc) list \<Rightarrow> string option" where
  "reused lc m =
     (case last_key (matching lc m) None of
        None \<Rightarrow> None
      | Some k \<Rightarrow> if k = [] then None else Some k)"

definition add_alias :: "(string \<Rightarrow> string) \<Rightarrow> string \<Rightarrow> string \<Rightarrow> UrlShortener \<Rightarrow> string" where
  "add_alias toLowerCase rnd url this =
     (case reused (toLowerCase url) (collection this) of
        None \<Rightarrow> generateHash rnd
      | Some k \<Rightarrow> k)"

definition add_collection :: "(string \<Rightarrow> string) \<Rightarrow> string \<Rightarrow> string \<Rightarrow> UrlShortener \<Rightarrow> (string \<times> assoc) list" where
  "add_collection toLowerCase rnd url this =
     (case reused (toLowerCase url) (collection this) of
        None \<Rightarrow> map_set (generateHash rnd)
                 \<lparr>longUrl = toLowerCase url, hitCount = 0, active = True\<rparr>
                 (set_active True (toLowerCase url) (collection this))
      | Some k \<Rightarrow> set_active True (toLowerCase url) (collection this))"

text \<open>The url a call is made with.\<close>

fun url_of :: "call \<Rightarrow> string" where
  "url_of (Add rnd url) = url"
| "url_of (Query url) = url"
| "url_of (Count url) = url"
| "url_of (Remove url) = url"

text \<open>
  The condition of the \<open>URL_SYNTAX\<close> error in the words of the specification: the string
  does not begin, ignoring case, with \<open>http://\<close> or \<open>https://\<close>, or the authority (the
  third piece between slashes) is empty, or it has no dot.  A string with no third piece
  counts as having an empty authority.
\<close>

definition spec_syntax_invalid :: "(string \<Rightarrow> string) \<Rightarrow> string \<Rightarrow> bool" where
  "spec_syntax_invalid toLowerCase url =
     (\<not> (startsWith (toLowerCase url) ''http://'' \<or> startsWith (toLowerCase url) ''https://'') \<or>
      (case nth_opt (split CHR ''/'' url) 2 of
         None \<Rightarrow> True
       | Some authority \<Rightarrow> authority = [] \<or> CHR ''.'' \<notin> set authority))"

text \<open>
  An instance of the parameter for the examples: the host's \<open>toLowerCase\<close> on strings
  of characters below 256, read as Latin-1.  There it works character by character: it
  folds A..Z and the capital letters from \<open>0xC0\<close> to \<open>0xDE\<close>, but the multiplication
  sign \<open>0xD7\<close>, to the character 32 places on, and leaves every other character alone.
  It has the properties asked of the parameter, so every theorem holds of it.
\<close>

definition latin1_upper :: string where
  "latin1_upper = ''ABCDEFGHIJKLMNOPQRSTUVWXYZ'' @
     [CHR 0xC0, CHR 0xC1, CHR 0xC2, CHR 0xC3, CHR 0xC4, CHR 0xC5, CHR 0xC6, CHR 0xC7, CHR 0xC8, CHR 0xC9, CHR 0xCA, CHR 0xCB, CHR 0xCC, CHR 0xCD, CHR 0xCE, CHR 0xCF, CHR 0xD0, CHR 0xD1, CHR 0xD2, CHR 0xD3, CHR 0xD4, CHR 0xD5, CHR 0xD6, CHR 0xD8, CHR 0xD9, CHR 0xDA, CHR 0xDB, CHR 0xDC, CHR 0xDD, CHR 0xDE]"

definition latin1_lower :: string where
  "latin1_lower = ''abcdefghijklmnopqrstuvwxyz'' @
     [CHR 0xE0, CHR 0xE1, CHR 0xE2, CHR 0xE3, CHR 0xE4, CHR 0xE5, CHR 0xE6, CHR 0xE7, CHR 0xE8, CHR 0xE9, CHR 0xEA, CHR 0xEB, CHR 0xEC, CHR 0xED, CHR 0xEE, CHR 0xEF, CHR 0xF0, CHR 0xF1, CHR 0xF2, CHR 0xF3, CHR 0xF4, CHR 0xF5, CHR 0xF6, CHR 0xF8, CHR 0xF9, CHR 0xFA, CHR 0xFB, CHR 0xFC, CHR 0xFD, CHR 0xFE]"

definition latin1_toLowerChar :: "char \<Rightarrow> char" where
  "latin1_toLowerChar c =
     (case map_of (zip latin1_upper latin1_lower) c of
        Some l \<Rightarrow> l
      | None \<Rightarrow> c)"

definition latin1_toLowerCase :: "string \<Rightarrow> string" where
  "latin1_toLowerCase s = map latin1_toLowerChar s"

text \<open>
  Example stores with the domain \<open>short.ly\<close>: after
  \<open>add('http://Example.com/a')\<close>, the draw being \<open>0.4fzyo82mvyr\<close>; and after a
  \<open>query\<close> of the short url.
\<close>

definition example_store :: UrlShortener where
  "example_store =
     \<lparr>baseUrl = ''short.ly'',
      collection = [(''yo82mvy'', \<lparr>longUrl = ''http://example.com/a'', hitCount = 0, active = True\<rparr>)]\<rparr>"

definition queried_store :: UrlShortener where
  "queried_store =
     \<lparr>baseUrl = ''short.ly'',
      collection = [(''yo82mvy'', \<lparr>longUrl = ''http://example.com/a'', hitCount = 1, active = True\<rparr>)]\<rparr>"

text \<open>The same \<open>add\<close> with the domain \<open>localhost\<close>.\<close>

definition localhost_store :: UrlShortener where
  "localhost_store =
     \<lparr>baseUrl = ''localhost'',
      collection = [(''yo82mvy'', \<lparr>longUrl = ''http://example.com/a'', hitCount = 0, active = True\<rparr>)]\<rparr>"

text \<open>A run of calls, the store threaded through.\<close>

fun run :: "(string \<Rightarrow> string) \<Rightarrow> call list \<Rightarrow> UrlShortener \<Rightarrow> js_exception + UrlShortener" where
  "run toLowerCase [] this = Inr this"
| "run toLowerCase (c # cs) this =
     (case exec toLowerCase c this of
        Inl e \<Rightarrow> Inl e
      | Inr (r, this') \<Rightarrow> run toLowerCase cs this')"

text \<open>
  \<open>creates url this\<close>: \<open>add\<close> of this url stores a new record, under the alias it draws
  (the url is accepted, and the \<open>forEach\<close> leaves \<open>exists\<close> undefined or empty).
  A call collides with an alias when it is such an \<open>add\<close> and draws that alias.
\<close>

definition creates :: "(string \<Rightarrow> string) \<Rightarrow> string \<Rightarrow> UrlShortener \<Rightarrow> bool" where
  "creates toLowerCase url this =
     (urlSyntaxError toLowerCase url = Inr None \<and> \<not> isSameOrigin toLowerCase this url \<and>
      (case snd (fold (add_each (toLowerCase url)) (collection this) (collection this, None)) of
         None \<Rightarrow> True
       | Some exists \<Rightarrow> exists = []))"

fun collides :: "(string \<Rightarrow> string) \<Rightarrow> string \<Rightarrow> call \<Rightarrow> UrlShortener \<Rightarrow> bool" where
  "collides toLowerCase alias (Add rnd url) this = (creates toLowerCase url this \<and> generateHash rnd = alias)"
| "collides toLowerCase alias (Query url) this = False"
| "collides toLowerCase alias (Count url) this = False"
| "collides toLowerCase alias (Remove url) this = False"

fun collision_free :: "(string \<Rightarrow> string) \<Rightarrow> string \<Rightarrow> call list \<Rightarrow> UrlShortener \<Rightarrow> bool" where
  "collision_free toLowerCase alias [] this = True"
| "collision_free toLowerCase alias (c # cs) this =
     (\<not> collides toLowerCase alias c this \<and>
      (case exec toLowerCase c this of
         Inl e \<Rightarrow> True
       | Inr (r, this') \<Rightarrow> collision_free toLowerCase alias cs this'))"

text \<open>A successful \<open>query\<close> of an alias counts as one hit of it.\<close>

fun hit :: "string \<Rightarrow> call \<Rightarrow> result \<Rightarrow> nat" where
  "hit alias (Query url) r =
     (if nth_opt (split CHR ''/'' url) 3 = Some alias \<and> error_code r = None then 1 else 0)"
| "hit alias (Add rnd url) r = 0"
| "hit alias (Count url) r = 0"
| "hit alias (Remove url) r = 0"

fun hits :: "(string \<Rightarrow> string) \<Rightarrow> string \<Rightarrow> call list \<Rightarrow> UrlShortener \<Rightarrow> nat" where
  "hits toLowerCase alias [] this = 0"
| "hits toLowerCase alias (c # cs) this =
     (case exec toLowerCase c this of
        Inl e \<Rightarrow> 0
      | Inr (r, this') \<Rightarrow> hit alias c r + hits toLowerCase alias cs this')"

fun adds_url :: "(string \<Rightarrow> string) \<Rightarrow> string \<Rightarrow> call \<Rightarrow> bool" where
  "adds_url toLowerCase lc (Add rnd url) = (toLowerCase url = lc)"
| "adds_url toLowerCase lc (Query url) = False"
| "adds_url toLowerCase lc (Count url) = False"
| "adds_url toLowerCase lc (Remove url) = False"

text \<open>No two records have the same long url; no record has the empty alias.\<close>

definition unique_urls :: "(string \<times> assoc) list \<Rightarrow> bool" where
  "unique_urls m = distinct (map (\<lambda>entry. longUrl (snd entry)) m)"

definition no_empty_alias :: "UrlShortener \<Rightarrow> bool" where
  "no_empty_alias this = ([] \<notin> set (map fst (collection this)))"

text \<open>
  Further example stores: the record removed, before and after the \<open>query\<close>; the record
  replaced by one of another long url that drew the same alias; a record under the empty
  alias, and the second record for its long url.
\<close>

definition inactive_store :: UrlShortener where
  "inactive_store =
     \<lparr>baseUrl = ''short.ly'',
      collection = [(''yo82mvy'', \<lparr>longUrl = ''http://example.com/a'', hitCount = 0, active = False\<rparr>)]\<rparr>"

definition inactive_queried_store :: UrlShortener where
  "inactive_queried_store =
     \<lparr>baseUrl = ''short.ly'',
      collection = [(''yo82mvy'', \<lparr>longUrl = ''http://example.com/a'', hitCount = 1, active = False\<rparr>)]\<rparr>"

definition other_store :: UrlShortener where
  "other_store =
     \<lparr>baseUrl = ''short.ly'',
      collection = [(''yo82mvy'', \<lparr>longUrl = ''http://other.org/b'', hitCount = 0, active = True\<rparr>)]\<rparr>"

definition empty_alias_store :: UrlShortener where
  "empty_alias_store =
     \<lparr>baseUrl = ''short.ly'',
      collection = [([], \<lparr>longUrl = ''http://example.com/a'', hitCount = 0, active = True\<rparr>)]\<rparr>"

definition duplicate_store :: UrlShortener where
  "duplicate_store =
     \<lparr>baseUrl = ''short.ly'',
      collection =
        [([], \<lparr>longUrl = ''http://example.com/a'', hitCount = 0, active = True\<rparr>),
         (''yo82mvy'', \<lparr>longUrl = ''http://example.com/a'', hitCount = 0, active = True\<rparr>)]\<rparr>"

text \<open>
  Examples with a letter outside ASCII, the capital E acute (\<open>0xC9\<close>), which the fold
  turns into the small one (\<open>0xE9\<close>): first in the long url, then in the domain.
\<close>

definition accent_url :: string where
  "accent_url = ''http://ex'' @ [CHR 0xC9] @ ''mple.com/a''"

definition accent_capitals :: string where
  "accent_capitals = ''HTTP://EX'' @ [CHR 0xC9] @ ''MPLE.COM/a''"

definition accent_folded :: string where
  "accent_folded = ''http://ex'' @ [CHR 0xE9] @ ''mple.com/a''"

definition accent_store :: UrlShortener where
  "accent_store =
     \<lparr>baseUrl = ''short.ly'',
      collection = [(''yo82mvy'', \<lparr>longUrl = accent_folded, hitCount = 0, active = True\<rparr>)]\<rparr>"

definition accent_inactive_store :: UrlShortener where
  "accent_inactive_store =
     \<lparr>baseUrl = ''short.ly'',
      collection = [(''yo82mvy'', \<lparr>longUrl = accent_folded, hitCount = 0, active = False\<rparr>)]\<rparr>"

definition accent_domain :: string where
  "accent_domain = [CHR 0xE9] @ ''.ly''"

definition accent_short :: string where
  "accent_short = ''http://'' @ [CHR 0xC9] @ ''.LY/yo82mvy''"

definition accent_domain_store :: UrlShortener where
  "accent_domain_store =
     \<lparr>baseUrl = accent_domain,
      collection = [(''yo82mvy'', \<lparr>longUrl = ''http://example.com/a'', hitCount = 0, active = True\<rparr>)]\<rparr>"

section \<open>Splitting\<close>

lemma split_not_Nil [simp]: "split sep s \<noteq> []"
  by (induction s) (auto split: list.splits)

lemma split_no_sep: "sep \<notin> set a \<Longrightarrow> split sep a = [a]"
  by (induction a) auto

lemma split_append_sep: "sep \<notin> set a \<Longrightarrow> split sep (a @ sep # b) = a # split sep b"
  by (induction a) auto

lemma split_map:
  assumes "\<And>c. (f c = sep) = (c = sep)"
  shows "split sep (map f s) = map (map f) (split sep s)"
  using assms by (induction s) (auto split: list.splits)

lemma split_single: "split sep s = [x] \<Longrightarrow> sep \<notin> set s"
proof (induction s arbitrary: x)
  case Nil
  then show ?case by simp
next
  case (Cons c cs)
  show ?case
  proof (cases "c = sep")
    case True
    with Cons.prems show ?thesis by simp
  next
    case False
    obtain p ps where s: "split sep cs = p # ps" by (cases "split sep cs") auto
    with False Cons.prems have "ps = []" by simp
    with s Cons.IH have "sep \<notin> set cs" by simp
    with False show ?thesis by simp
  qed
qed

lemma unsplit_split [simp]: "unsplit sep (split sep s) = s"
proof (induction s)
  case Nil
  show ?case by simp
next
  case (Cons c cs)
  obtain p ps where s: "split sep cs = p # ps" by (cases "split sep cs") auto
  show ?case
  proof (cases "c = sep")
    case True
    with s Cons.IH show ?thesis by simp
  next
    case False
    with s Cons.IH show ?thesis by (cases ps) auto
  qed
qed

lemma startsWith_iff: "startsWith s p = (\<exists>rest. s = p @ rest)"
  unfolding startsWith_def by (metis append_eq_conv_conj append_take_drop_id)

lemma split_scheme:
  "CHR ''/'' \<notin> set scheme \<Longrightarrow>
     split CHR ''/'' (scheme @ ''//'' @ rest) = scheme # [] # split CHR ''/'' rest"
  by (simp add: split_append_sep)

lemma nth_opt_map: "nth_opt (map f xs) i = map_option f (nth_opt xs i)"
  by (simp add: nth_opt_def)

section \<open>The syntax check and the fold\<close>

lemma fold_split:
  "is_toLowerCase toLowerCase \<Longrightarrow>
     split CHR ''/'' (toLowerCase s) = map toLowerCase (split CHR ''/'' s)"
  by (simp add: is_toLowerCase_def)

lemma fold_Nil_iff: "is_toLowerCase toLowerCase \<Longrightarrow> (toLowerCase s = []) = (s = [])"
  by (simp add: is_toLowerCase_def)

lemma fold_dot:
  "is_toLowerCase toLowerCase \<Longrightarrow> (CHR ''.'' \<in> set (toLowerCase s)) = (CHR ''.'' \<in> set s)"
  by (simp add: is_toLowerCase_def)

lemma fold_http:
  "is_toLowerCase toLowerCase \<Longrightarrow> toLowerCase ''http:'' = ''http:''"
  "is_toLowerCase toLowerCase \<Longrightarrow> toLowerCase ''https:'' = ''https:''"
  by (simp_all add: is_toLowerCase_def)

lemma fold_no_slash:
  assumes "is_toLowerCase toLowerCase" and "CHR ''/'' \<notin> set a"
  shows "CHR ''/'' \<notin> set (toLowerCase a)"
proof -
  from assms have "split CHR ''/'' (toLowerCase a) = [toLowerCase a]"
    by (simp add: fold_split split_no_sep)
  then show ?thesis by (rule split_single)
qed

lemma fold_piece:
  "is_toLowerCase toLowerCase \<Longrightarrow>
     nth_opt (split CHR ''/'' (toLowerCase url)) i =
       map_option toLowerCase (nth_opt (split CHR ''/'' url) i)"
  by (simp add: fold_split nth_opt_map)

lemma http_prefix_pieces:
  assumes "http_prefix toLowerCase url"
  shows "\<exists>sch rest. split CHR ''/'' (toLowerCase url) = sch # [] # rest \<and> rest \<noteq> [] \<and>
           (sch = ''http:'' \<or> sch = ''https:'')"
proof -
  from assms consider r where "toLowerCase url = ''http:'' @ ''//'' @ r"
    | r where "toLowerCase url = ''https:'' @ ''//'' @ r"
    unfolding http_prefix_def startsWith_iff by auto
  then show ?thesis
  proof cases
    case 1
    have "split CHR ''/'' (''http:'' @ ''//'' @ r) = ''http:'' # [] # split CHR ''/'' r"
      by (rule split_scheme) simp
    with 1 show ?thesis by simp
  next
    case 2
    have "split CHR ''/'' (''https:'' @ ''//'' @ r) = ''https:'' # [] # split CHR ''/'' r"
      by (rule split_scheme) simp
    with 2 show ?thesis by simp
  qed
qed

lemma http_prefix_three:
  assumes "is_toLowerCase toLowerCase" and "http_prefix toLowerCase url"
  shows "\<exists>a. nth_opt (split CHR ''/'' url) 2 = Some a"
proof -
  from http_prefix_pieces [OF assms(2)] obtain sch rest
    where "split CHR ''/'' (toLowerCase url) = sch # [] # rest" and "rest \<noteq> []" by blast
  then have "2 < length (split CHR ''/'' (toLowerCase url))" by (cases rest) auto
  with assms(1) have "2 < length (split CHR ''/'' url)" by (simp add: fold_split)
  then show ?thesis by (simp add: nth_opt_def)
qed

lemma urlSyntaxError_total:
  assumes "is_toLowerCase toLowerCase"
  shows "urlSyntaxError toLowerCase url = Inr None \<or>
         urlSyntaxError toLowerCase url = Inr (Some (syntaxError url))"
proof (cases "http_prefix toLowerCase url")
  case True
  from http_prefix_three [OF assms True] obtain a
    where "nth_opt (split CHR ''/'' url) 2 = Some a" ..
  then show ?thesis by (simp add: urlSyntaxError_def)
next
  case False
  then show ?thesis by (simp add: urlSyntaxError_def http_prefix_def)
qed

lemma urlSyntaxError_ok_iff:
  "(urlSyntaxError toLowerCase url = Inr None) =
     (http_prefix toLowerCase url \<and>
      (\<exists>a. nth_opt (split CHR ''/'' url) 2 = Some a \<and> a \<noteq> [] \<and> CHR ''.'' \<in> set a))"
  by (auto simp: urlSyntaxError_def http_prefix_def split: option.splits)

lemma urlSyntaxError_Some:
  "urlSyntaxError toLowerCase url = Inr (Some err) \<Longrightarrow> err = syntaxError url"
  by (auto simp: urlSyntaxError_def Let_def split: if_splits option.splits)

lemma valid_fold_not_Nil: "urlSyntaxError toLowerCase url = Inr None \<Longrightarrow> toLowerCase url \<noteq> []"
  by (auto simp: urlSyntaxError_ok_iff http_prefix_def startsWith_def)

lemma isSameOrigin_iff:
  "isSameOrigin toLowerCase this url =
     (nth_opt (split CHR ''/'' (toLowerCase url)) 2 = Some (baseUrl this))"
  by (simp add: isSameOrigin_def)

text \<open>Two urls with the same fold are accepted or rejected together.\<close>

lemma same_fold_valid:
  assumes "is_toLowerCase toLowerCase" and "toLowerCase u' = toLowerCase u"
    and "urlSyntaxError toLowerCase u = Inr None"
  shows "urlSyntaxError toLowerCase u' = Inr None"
proof -
  from assms(3) obtain a where p: "http_prefix toLowerCase u"
    and a: "nth_opt (split CHR ''/'' u) 2 = Some a" "a \<noteq> []" "CHR ''.'' \<in> set a"
    by (auto simp: urlSyntaxError_ok_iff)
  from p assms(2) have p': "http_prefix toLowerCase u'" by (simp add: http_prefix_def)
  from http_prefix_three [OF assms(1) p'] obtain a'
    where a': "nth_opt (split CHR ''/'' u') 2 = Some a'" ..
  from a(1) a' assms(1,2) have "toLowerCase a' = toLowerCase a"
    using fold_piece [OF assms(1), of u' 2] fold_piece [OF assms(1), of u 2] by simp
  with a(2,3) assms(1) have "a' \<noteq> []" and "CHR ''.'' \<in> set a'"
    by (metis fold_Nil_iff, metis fold_dot)
  with p' a' show ?thesis by (simp add: urlSyntaxError_ok_iff)
qed

lemma same_fold_origin:
  "toLowerCase u' = toLowerCase u \<Longrightarrow>
     isSameOrigin toLowerCase this u' = isSameOrigin toLowerCase this u"
  by (simp add: isSameOrigin_iff)

lemma hash_digits: "random_base36 rnd \<Longrightarrow> list_all base36_digit (generateHash rnd)"
proof -
  assume r: "random_base36 rnd"
  have "drop 5 rnd = drop 3 (drop 2 rnd)" by simp
  then have "set (drop 5 rnd) \<subseteq> set (drop 2 rnd)"
    by (simp only: set_drop_subset)
  moreover have "set (take 7 (drop 5 rnd)) \<subseteq> set (drop 5 rnd)"
    by (rule set_take_subset)
  ultimately have s: "set (take 7 (drop 5 rnd)) \<subseteq> set (drop 2 rnd)"
    by (rule order_trans [rotated])
  show ?thesis
  proof (cases "rnd = ''0''")
    case True
    then show ?thesis by (simp add: generateHash_def slice_def)
  next
    case False
    with r have "list_all base36_digit (drop 2 rnd)" by (simp add: random_base36_def)
    with s show ?thesis
      by (auto simp: generateHash_def slice_def list_all_iff)
  qed
qed

lemma hash_no_slash: "random_base36 rnd \<Longrightarrow> CHR ''/'' \<notin> set (generateHash rnd)"
  using hash_digits [of rnd] by (auto simp: list_all_iff base36_digit_def)

section \<open>The collection as a map\<close>

lemma map_of_map_set [simp]: "map_of (map_set k v m) = (map_of m)(k \<mapsto> v)"
  by (induction m) (auto simp: fun_eq_iff)

lemma keys_map_set:
  "map fst (map_set k v m) = (if k \<in> set (map fst m) then map fst m else map fst m @ [k])"
  by (induction m) auto

lemma set_keys_map_set [simp]: "set (map fst (map_set k v m)) = insert k (set (map fst m))"
  by (auto simp: keys_map_set)

lemma distinct_map_set [simp]: "distinct (map fst (map_set k v m)) = distinct (map fst m)"
  by (auto simp: keys_map_set)

lemma map_set_append_fresh:
  "k \<notin> set (map fst pre) \<Longrightarrow> map_set k v (pre @ (k, e) # post) = pre @ (k, v) # post"
  by (induction pre) auto

lemma set_map_set_subset: "set (map_set k v m) \<subseteq> insert (k, v) (set m)"
  by (induction m) auto

section \<open>The loops over the collection\<close>

lemma fold_add_each_gen:
  "distinct (map fst (pre @ xs)) \<Longrightarrow>
     fold (add_each lc) xs (pre @ xs, ex) =
       (pre @ set_active True lc xs, last_key (matching lc xs) ex)"
proof (induction xs arbitrary: pre ex)
  case Nil
  then show ?case by (simp add: set_active_def matching_def last_key_def)
next
  case (Cons x xs)
  obtain k e where x: "x = (k, e)" by (cases x)
  from Cons.prems have k: "k \<notin> set (map fst pre)"
    using x by auto
  show ?case
  proof (cases "longUrl e = lc")
    case True
    have "fold (add_each lc) (x # xs) (pre @ x # xs, ex) =
            fold (add_each lc) xs ((pre @ [(k, e\<lparr>active := True\<rparr>)]) @ xs, Some k)"
      using True x k by (simp add: add_each_def map_set_append_fresh)
    also have "\<dots> = ((pre @ [(k, e\<lparr>active := True\<rparr>)]) @ set_active True lc xs,
                      last_key (matching lc xs) (Some k))"
      using Cons.prems x by (intro Cons.IH) auto
    finally show ?thesis
      using True x by (simp add: set_active_def matching_def last_key_def)
  next
    case False
    have "fold (add_each lc) (x # xs) (pre @ x # xs, ex) =
            fold (add_each lc) xs ((pre @ [x]) @ xs, ex)"
      using False x by (simp add: add_each_def)
    also have "\<dots> = ((pre @ [x]) @ set_active True lc xs, last_key (matching lc xs) ex)"
      using Cons.prems by (intro Cons.IH) auto
    finally show ?thesis
      using False x by (simp add: set_active_def matching_def last_key_def)
  qed
qed

lemma fold_add_each:
  "distinct (map fst m) \<Longrightarrow>
     fold (add_each lc) m (m, None) = (set_active True lc m, last_key (matching lc m) None)"
  using fold_add_each_gen [of "[]" m lc None] by simp

lemma fold_remove_each_gen:
  "distinct (map fst (pre @ xs)) \<Longrightarrow>
     fold (remove_each lc) xs (pre @ xs, ex) =
       (pre @ set_active False lc xs, ex \<or> matching lc xs \<noteq> [])"
proof (induction xs arbitrary: pre ex)
  case Nil
  then show ?case by (simp add: set_active_def matching_def)
next
  case (Cons x xs)
  obtain k e where x: "x = (k, e)" by (cases x)
  from Cons.prems have k: "k \<notin> set (map fst pre)"
    using x by auto
  show ?case
  proof (cases "longUrl e = lc")
    case True
    have "fold (remove_each lc) (x # xs) (pre @ x # xs, ex) =
            fold (remove_each lc) xs ((pre @ [(k, e\<lparr>active := False\<rparr>)]) @ xs, True)"
      using True x k by (simp add: remove_each_def map_set_append_fresh)
    also have "\<dots> = ((pre @ [(k, e\<lparr>active := False\<rparr>)]) @ set_active False lc xs,
                      True \<or> matching lc xs \<noteq> [])"
      using Cons.prems x by (intro Cons.IH) auto
    finally show ?thesis
      using True x by (simp add: set_active_def matching_def)
  next
    case False
    have "fold (remove_each lc) (x # xs) (pre @ x # xs, ex) =
            fold (remove_each lc) xs ((pre @ [x]) @ xs, ex)"
      using False x by (simp add: remove_each_def)
    also have "\<dots> = ((pre @ [x]) @ set_active False lc xs, ex \<or> matching lc xs \<noteq> [])"
      using Cons.prems by (intro Cons.IH) auto
    finally show ?thesis
      using False x by (simp add: set_active_def matching_def)
  qed
qed

lemma fold_remove_each:
  "distinct (map fst m) \<Longrightarrow>
     fold (remove_each lc) m (m, False) = (set_active False lc m, matching lc m \<noteq> [])"
  using fold_remove_each_gen [of "[]" m lc False] by simp

lemma fold_count_each_gen:
  "fold (count_each lc) xs ex =
     (if matching lc xs = [] then ex else Some (hitCount (snd (last (matching lc xs)))))"
  by (induction xs arbitrary: ex) (auto simp: count_each_def matching_def)


section \<open>The invariant is kept\<close>

lemma set_active_keys [simp]: "map fst (set_active b lc m) = map fst m"
  by (induction m) (auto simp: set_active_def)

lemma map_of_set_active:
  "map_of (set_active b lc m) k =
     map_option (\<lambda>e. if longUrl e = lc then e\<lparr>active := b\<rparr> else e) (map_of m k)"
  by (induction m) (auto simp: set_active_def)

lemma entry_ok_set_active:
  "list_all (entry_ok toLowerCase d) m \<Longrightarrow> list_all (entry_ok toLowerCase d) (set_active b lc m)"
  by (induction m) (auto simp: set_active_def entry_ok_def)

lemma entry_ok_map_set:
  "list_all (entry_ok toLowerCase d) m \<Longrightarrow> entry_ok toLowerCase d (k, v) \<Longrightarrow> list_all (entry_ok toLowerCase d) (map_set k v m)"
  by (induction m) auto

lemma entry_ok_update:
  "list_all (entry_ok toLowerCase d) m \<Longrightarrow> map_of m k = Some e \<Longrightarrow> longUrl e' = longUrl e \<Longrightarrow>
     entry_ok toLowerCase d (k, e')"
  by (fastforce simp: list_all_iff entry_ok_def dest!: map_of_SomeD)

lemma add_valid:
  assumes "urlSyntaxError toLowerCase url = Inr None" and "\<not> isSameOrigin toLowerCase this url"
    and "distinct (map fst (collection this))"
  shows "add toLowerCase rnd url this =
           Inr (Value (Str (shortUrl_of (split CHR ''/'' (toLowerCase url)) (baseUrl this)
                             (add_alias toLowerCase rnd url this))),
                this\<lparr>collection := add_collection toLowerCase rnd url this\<rparr>)"
  using assms
  by (simp add: add_def fold_add_each Let_def add_alias_def add_collection_def reused_def
      split: option.splits)

lemma add_invalid:
  "is_toLowerCase toLowerCase \<Longrightarrow> urlSyntaxError toLowerCase url \<noteq> Inr None \<Longrightarrow>
     add toLowerCase rnd url this = Inr (syntaxError url, this)"
  using urlSyntaxError_total [of toLowerCase url] by (auto simp: add_def)

lemma add_unchanged:
  "\<not> (urlSyntaxError toLowerCase url = Inr None \<and> \<not> isSameOrigin toLowerCase this url) \<Longrightarrow>
     add toLowerCase rnd url this = Inr (r, this') \<Longrightarrow> this' = this"
  by (auto simp: add_def split: sum.splits option.splits if_splits)

lemma add_same_origin:
  "urlSyntaxError toLowerCase url = Inr None \<Longrightarrow> isSameOrigin toLowerCase this url \<Longrightarrow>
     add toLowerCase rnd url this = Inr (Error ''DOMAIN'' ''longUrl domain is equal to SHORTENER_DOMAIN'', this)"
  by (simp add: add_def)

lemma inv_add:
  assumes "inv toLowerCase this" and "random_base36 rnd" and "add toLowerCase rnd url this = Inr (r, this')"
  shows "inv toLowerCase this' \<and> baseUrl this' = baseUrl this"
proof (cases "urlSyntaxError toLowerCase url = Inr None \<and> \<not> isSameOrigin toLowerCase this url")
  case False
  then have "this' = this"
    using assms(3) by (rule add_unchanged)
  with assms(1) show ?thesis by simp
next
  case True
  let ?lc = "toLowerCase url"
  from assms(1) have d: "distinct (map fst (collection this))"
    and ok: "list_all (entry_ok toLowerCase (baseUrl this)) (collection this)"
    by (simp_all add: inv_def)
  from True d assms(3) have t: "this' = this\<lparr>collection := add_collection toLowerCase rnd url this\<rparr>"
    by (simp add: add_valid)
  have new: "entry_ok toLowerCase (baseUrl this) (generateHash rnd, \<lparr>longUrl = ?lc, hitCount = 0, active = True\<rparr>)"
    using True assms(2) by (auto simp: entry_ok_def hash_no_slash isSameOrigin_iff)
  have "list_all (entry_ok toLowerCase (baseUrl this)) (add_collection toLowerCase rnd url this)"
    using ok new by (auto simp: add_collection_def entry_ok_set_active entry_ok_map_set
        split: option.splits)
  moreover have "distinct (map fst (add_collection toLowerCase rnd url this))"
    using d by (auto simp: add_collection_def split: option.splits)
  ultimately show ?thesis using t by (simp add: inv_def)
qed

lemma query_cases:
  assumes "query toLowerCase url this = Inr (r, this')"
  shows "this' = this \<or>
     (\<exists>k e. map_of (collection this) k = Some e \<and> nth_opt (split CHR ''/'' url) 3 = Some k \<and>
        active e \<and> r = Value (Str (longUrl e)) \<and>
        this' = this\<lparr>collection :=
          map_set k (e\<lparr>hitCount := plus_one (hitCount e)\<rparr>) (collection this)\<rparr>)"
  using assms
  by (auto simp: query_def split: sum.splits option.splits if_splits)

lemma inv_query:
  assumes "inv toLowerCase this" and "query toLowerCase url this = Inr (r, this')"
  shows "inv toLowerCase this' \<and> baseUrl this' = baseUrl this"
  using query_cases [OF assms(2)] assms(1)
  by (auto simp: inv_def intro!: entry_ok_map_set entry_ok_update [where e' = "e\<lparr>hitCount := n\<rparr>" for e n])

lemma count_state: "count toLowerCase url this = Inr (r, this') \<Longrightarrow> this' = this"
  by (auto simp: count_def split: sum.splits option.splits if_splits prod.splits)

lemma by_alias_Some_iff:
  "(by_alias toLowerCase this url = Some (k, e)) =
     (isSameOrigin toLowerCase this url \<and> nth_opt (split CHR ''/'' url) 3 = Some k \<and>
      map_of (collection this) k = Some e)"
  by (auto simp: by_alias_def split: option.splits)

lemma remove_cases:
  assumes "remove toLowerCase url this = Inr (r, this')" and "distinct (map fst (collection this))"
  shows "this' = this \<or>
     (\<exists>k e. by_alias toLowerCase this url = Some (k, e) \<and> r = Empty \<and>
        this' = this\<lparr>collection := map_set k (e\<lparr>active := False\<rparr>) (collection this)\<rparr>) \<or>
     (by_alias toLowerCase this url = None \<and> r = Empty \<and> matching (toLowerCase url) (collection this) \<noteq> [] \<and>
        this' = this\<lparr>collection := set_active False (toLowerCase url) (collection this)\<rparr>)"
proof (cases "urlSyntaxError toLowerCase url = Inr None")
  case False
  with assms(1) show ?thesis
    by (auto simp: remove_def split: sum.splits option.splits)
next
  case True
  show ?thesis
  proof (cases "by_alias toLowerCase this url")
    case None
    with True assms show ?thesis
      by (auto simp: remove_def fold_remove_each Let_def split: if_splits)
  next
    case (Some p)
    obtain k e where "p = (k, e)" by (cases p)
    with Some True assms(1) show ?thesis
      by (simp add: remove_def)
  qed
qed

lemma inv_remove:
  assumes "inv toLowerCase this" and "remove toLowerCase url this = Inr (r, this')"
  shows "inv toLowerCase this' \<and> baseUrl this' = baseUrl this"
proof -
  from assms(1) have d: "distinct (map fst (collection this))" by (simp add: inv_def)
  from remove_cases [OF assms(2) d] assms(1) show ?thesis
    by (auto simp: inv_def entry_ok_set_active by_alias_Some_iff
        intro!: entry_ok_map_set entry_ok_update [where e' = "e\<lparr>active := b\<rparr>" for e b])
qed

lemma inv_exec:
  assumes "inv toLowerCase this" and "legal c" and "exec toLowerCase c this = Inr (r, this')"
  shows "inv toLowerCase this' \<and> baseUrl this' = baseUrl this"
  using assms by (cases c) (auto dest: inv_add inv_query inv_remove count_state)

lemma inv_constructor: "inv toLowerCase (constructor d)"
  by (simp add: inv_def constructor_def)

lemma reachable_inv: "reachable toLowerCase this \<Longrightarrow> inv toLowerCase this"
  by (induction rule: reachable.induct) (auto simp: inv_constructor dest: inv_exec)


section \<open>Outcomes of the methods\<close>

lemma error_code_simps [simp]:
  "error_code (Error c m) = Some c" "error_code (Value v) = None" "error_code Empty = None"
  "error_code (syntaxError url) = Some ''URL_SYNTAX''"
  "error_code notFound = Some ''NOT_FOUND''"
  "error_code (queryNotFound url) = Some ''NOT_FOUND''"
  by (simp_all add: error_code_def syntaxError_def notFound_def queryNotFound_def)

lemma query_invalid:
  "is_toLowerCase toLowerCase \<Longrightarrow> urlSyntaxError toLowerCase url \<noteq> Inr None \<Longrightarrow>
     query toLowerCase url this = Inr (syntaxError url, this)"
  using urlSyntaxError_total [of toLowerCase url] by (auto simp: query_def)

lemma count_invalid:
  "is_toLowerCase toLowerCase \<Longrightarrow> urlSyntaxError toLowerCase url \<noteq> Inr None \<Longrightarrow>
     count toLowerCase url this = Inr (syntaxError url, this)"
  using urlSyntaxError_total [of toLowerCase url] by (auto simp: count_def)

lemma remove_invalid:
  "is_toLowerCase toLowerCase \<Longrightarrow> urlSyntaxError toLowerCase url \<noteq> Inr None \<Longrightarrow>
     remove toLowerCase url this = Inr (syntaxError url, this)"
  using urlSyntaxError_total [of toLowerCase url] by (auto simp: remove_def)

lemma exec_invalid:
  "is_toLowerCase toLowerCase \<Longrightarrow> urlSyntaxError toLowerCase (url_of c) \<noteq> Inr None \<Longrightarrow>
     exec toLowerCase c this = Inr (syntaxError (url_of c), this)"
  by (cases c) (simp_all add: add_invalid query_invalid count_invalid remove_invalid)

lemma exec_rejected:
  assumes "exec toLowerCase c this = Inr (r, this')"
    and "urlSyntaxError toLowerCase (url_of c) \<noteq> Inr None"
  shows "r = syntaxError (url_of c) \<and> this' = this"
  using assms
  by (cases c)
     (auto simp: add_def query_def count_def remove_def
       split: sum.splits option.splits dest: urlSyntaxError_Some)

lemma add_valid_outcome:
  assumes "urlSyntaxError toLowerCase url = Inr None"
  shows "\<exists>r this'. add toLowerCase rnd url this = Inr (r, this') \<and>
           (error_code r = None \<or> (error_code r = Some ''DOMAIN'' \<and> this' = this))"
  using assms by (auto simp: add_def Let_def split: option.splits)

lemma query_valid_outcome:
  assumes "urlSyntaxError toLowerCase url = Inr None"
  shows "\<exists>r this'. query toLowerCase url this = Inr (r, this') \<and>
           (error_code r = None \<or>
            ((error_code r = Some ''DOMAIN'' \<or> error_code r = Some ''NOT_FOUND'') \<and> this' = this))"
  using assms by (auto simp: query_def split: option.splits)

lemma count_valid_outcome:
  assumes "urlSyntaxError toLowerCase url = Inr None"
  shows "\<exists>r. count toLowerCase url this = Inr (r, this) \<and>
           (error_code r = None \<or> error_code r = Some ''NOT_FOUND'')"
  using assms by (auto simp: count_def split: option.splits)

lemma remove_valid_outcome:
  assumes "urlSyntaxError toLowerCase url = Inr None"
  shows "\<exists>r this'. remove toLowerCase url this = Inr (r, this') \<and>
           (error_code r = None \<or> (error_code r = Some ''NOT_FOUND'' \<and> this' = this))"
  using assms by (auto simp: remove_def Let_def split: option.splits)

lemma exec_valid_outcome:
  assumes "urlSyntaxError toLowerCase (url_of c) = Inr None"
  shows "\<exists>r this'. exec toLowerCase c this = Inr (r, this') \<and>
           (error_code r = None \<or>
            ((error_code r = Some ''DOMAIN'' \<or> error_code r = Some ''NOT_FOUND'') \<and> this' = this))"
proof (cases c)
  case (Add rnd url)
  with assms add_valid_outcome [of toLowerCase url rnd this] show ?thesis by auto
next
  case (Query url)
  with assms query_valid_outcome [of toLowerCase url this] show ?thesis by auto
next
  case (Count url)
  with assms count_valid_outcome [of toLowerCase url this] show ?thesis by auto
next
  case (Remove url)
  with assms remove_valid_outcome [of toLowerCase url this] show ?thesis by auto
qed

lemma spec_syntax_invalid_iff: "spec_syntax_invalid toLowerCase url = (urlSyntaxError toLowerCase url \<noteq> Inr None)"
  by (auto simp: spec_syntax_invalid_def urlSyntaxError_ok_iff http_prefix_def split: option.splits)


section \<open>An example store\<close>

lemma latin1_slash [simp]: "(latin1_toLowerChar c = CHR ''/'') = (c = CHR ''/'')"
  by (auto simp: latin1_toLowerChar_def latin1_upper_def latin1_lower_def
      split: option.splits if_splits)

lemma latin1_dot [simp]: "(latin1_toLowerChar c = CHR ''.'') = (c = CHR ''.'')"
  by (auto simp: latin1_toLowerChar_def latin1_upper_def latin1_lower_def
      split: option.splits if_splits)

lemma latin1_has_dot: "(CHR ''.'' \<in> set (latin1_toLowerCase s)) = (CHR ''.'' \<in> set s)"
  by (induction s) (auto simp: latin1_toLowerCase_def eq_commute [of "CHR ''.''"])

lemma latin1_is_toLowerCase: "is_toLowerCase latin1_toLowerCase"
proof -
  have "split CHR ''/'' (latin1_toLowerCase s) = map latin1_toLowerCase (split CHR ''/'' s)" for s
    unfolding latin1_toLowerCase_def by (rule split_map) simp
  moreover have "(latin1_toLowerCase s = []) = (s = [])" for s
    by (simp add: latin1_toLowerCase_def)
  moreover have "latin1_toLowerCase ''http:'' = ''http:''"
    and "latin1_toLowerCase ''https:'' = ''https:''"
    by (simp_all add: latin1_toLowerCase_def latin1_toLowerChar_def latin1_upper_def
        latin1_lower_def)
  ultimately show ?thesis
    by (simp add: is_toLowerCase_def latin1_has_dot)
qed

lemmas latin1_fold = latin1_toLowerCase_def latin1_toLowerChar_def latin1_upper_def
  latin1_lower_def

lemma lower_example_a: "latin1_toLowerCase ''http://Example.com/a'' = ''http://example.com/a''"
  by (simp add: latin1_fold)

lemma lower_example_a': "latin1_toLowerCase ''http://example.com/a'' = ''http://example.com/a''"
  by (simp add: latin1_fold)

lemma lower_example_b: "latin1_toLowerCase ''http://example.com/b'' = ''http://example.com/b''"
  by (simp add: latin1_fold)

lemma valid_example_a: "urlSyntaxError latin1_toLowerCase ''http://Example.com/a'' = Inr None"
  by (simp add: urlSyntaxError_def lower_example_a startsWith_def nth_opt_def)

lemma valid_example_b: "urlSyntaxError latin1_toLowerCase ''http://example.com/b'' = Inr None"
  by (simp add: urlSyntaxError_def lower_example_b startsWith_def nth_opt_def)

lemma hash_example: "generateHash ''0.4fzyo82mvyr'' = ''yo82mvy''"
  by (simp add: generateHash_def slice_def)

lemma random_example: "random_base36 ''0.4fzyo82mvyr''"
  by (simp add: random_base36_def base36_digit_def)

lemma add_example:
  "add latin1_toLowerCase ''0.4fzyo82mvyr'' ''http://Example.com/a'' (constructor ''short.ly'') =
     Inr (Value (Str ''http://short.ly/yo82mvy''), example_store)"
  by (simp add: add_def valid_example_a lower_example_a isSameOrigin_def nth_opt_def
      constructor_def hash_example shortUrl_of_def example_store_def Let_def)

lemma example_store_reachable: "reachable latin1_toLowerCase example_store"
proof (rule reachable.step)
  show "reachable latin1_toLowerCase (constructor ''short.ly'')" by (rule reachable.init)
  show "legal (Add ''0.4fzyo82mvyr'' ''http://Example.com/a'')" by (simp add: random_example)
  show "exec latin1_toLowerCase (Add ''0.4fzyo82mvyr'' ''http://Example.com/a'')
      (constructor ''short.ly'') = Inr (Value (Str ''http://short.ly/yo82mvy''), example_store)"
    by (simp add: add_example)
qed

lemma remove_example_b:
  "remove latin1_toLowerCase ''http://example.com/b'' example_store = Inr (notFound, example_store)"
  by (simp add: remove_def valid_example_b lower_example_b by_alias_def isSameOrigin_def
      nth_opt_def example_store_def remove_each_def)

lemma invalid_example: "spec_syntax_invalid latin1_toLowerCase ''short.ly/bad''"
  by (simp add: spec_syntax_invalid_def latin1_fold startsWith_def)


section \<open>The methods on a reachable store\<close>

lemma map_set_existing:
  "distinct (map fst m) \<Longrightarrow> map_of m k = Some e \<Longrightarrow>
     map_set k v m = map (\<lambda>entry. if fst entry = k then (k, v) else entry) m"
proof (induction m)
  case Nil
  then show ?case by simp
next
  case (Cons p m)
  show ?case
  proof (cases "fst p = k")
    case True
    with Cons.prems(1) have "k \<notin> fst ` set m" by simp
    then have "\<forall>entry \<in> set m. fst entry \<noteq> k" by (metis imageI)
    then have "map (\<lambda>entry. if fst entry = k then (k, v) else entry) m = m"
      by (induction m) auto
    with True show ?thesis by simp
  next
    case False
    with Cons show ?thesis by (cases p) auto
  qed
qed

lemma inv_entry:
  "inv toLowerCase this \<Longrightarrow> map_of (collection this) k = Some e \<Longrightarrow> entry_ok toLowerCase (baseUrl this) (k, e)"
  by (auto simp: inv_def list_all_iff dest!: map_of_SomeD)

lemma no_match_same_origin:
  assumes "inv toLowerCase this" and "isSameOrigin toLowerCase this url"
  shows "matching (toLowerCase url) (collection this) = []"
proof -
  have "longUrl (snd entry) \<noteq> toLowerCase url" if "entry \<in> set (collection this)" for entry
  proof
    assume eq: "longUrl (snd entry) = toLowerCase url"
    from assms(1) that have "entry_ok toLowerCase (baseUrl this) entry"
      by (simp add: inv_def list_all_iff)
    then obtain u where "longUrl (snd entry) = toLowerCase u"
      and "nth_opt (split CHR ''/'' (toLowerCase u)) 2 \<noteq> Some (baseUrl this)"
      by (auto simp: entry_ok_def)
    with eq assms(2) show False by (simp add: isSameOrigin_iff)
  qed
  then show ?thesis by (auto simp: matching_def filter_empty_conv)
qed

lemma count_valid:
  assumes "urlSyntaxError toLowerCase url = Inr None"
  shows "count toLowerCase url this =
     Inr (case by_alias toLowerCase this url of
            Some (k, e) \<Rightarrow> Value (Num (hitCount e))
          | None \<Rightarrow>
              if matching (toLowerCase url) (collection this) = [] then notFound
              else Value (Num (hitCount (snd (last (matching (toLowerCase url) (collection this)))))),
          this)"
  using assms by (simp add: count_def fold_count_each_gen split: option.splits)

lemma remove_valid:
  assumes "urlSyntaxError toLowerCase url = Inr None" and "distinct (map fst (collection this))"
  shows "remove toLowerCase url this =
     (case by_alias toLowerCase this url of
        Some (k, e) \<Rightarrow>
          Inr (Empty, this\<lparr>collection := map_set k (e\<lparr>active := False\<rparr>) (collection this)\<rparr>)
      | None \<Rightarrow>
          if matching (toLowerCase url) (collection this) = [] then Inr (notFound, this)
          else Inr (Empty,
                 this\<lparr>collection := set_active False (toLowerCase url) (collection this)\<rparr>))"
  using assms by (simp add: remove_def fold_remove_each Let_def split: option.splits)

lemma exec_total:
  assumes "is_toLowerCase toLowerCase"
  shows "\<exists>r this'. exec toLowerCase c this = Inr (r, this')"
proof (cases "urlSyntaxError toLowerCase (url_of c) = Inr None")
  case True
  from exec_valid_outcome [OF True, of this] show ?thesis by blast
next
  case False
  from exec_invalid [OF assms False, of this] show ?thesis by blast
qed

lemma authority_lower:
  "is_toLowerCase toLowerCase \<Longrightarrow> nth_opt (split CHR ''/'' url) 2 = Some authority \<Longrightarrow>
     isSameOrigin toLowerCase this url = (toLowerCase authority = baseUrl this)"
  by (simp add: isSameOrigin_iff fold_piece)

lemma lower_short: "latin1_toLowerCase ''http://short.ly'' = ''http://short.ly''"
  by (simp add: latin1_fold)

lemma valid_short: "urlSyntaxError latin1_toLowerCase ''http://short.ly'' = Inr None"
  by (simp add: urlSyntaxError_def lower_short startsWith_def nth_opt_def)

lemma same_origin_short: "isSameOrigin latin1_toLowerCase example_store ''http://short.ly''"
  by (simp add: isSameOrigin_def lower_short nth_opt_def example_store_def)

lemma lower_alias: "latin1_toLowerCase ''http://short.ly/yo82mvy'' = ''http://short.ly/yo82mvy''"
  by (simp add: latin1_fold)

lemma valid_alias: "urlSyntaxError latin1_toLowerCase ''http://short.ly/yo82mvy'' = Inr None"
  by (simp add: urlSyntaxError_def lower_alias startsWith_def nth_opt_def)

lemma query_example:
  "query latin1_toLowerCase ''http://short.ly/yo82mvy'' example_store =
     Inr (Value (Str ''http://example.com/a''), queried_store)"
  by (simp add: query_def valid_alias isSameOrigin_def lower_alias nth_opt_def
      example_store_def queried_store_def plus_one_def)

lemma queried_store_reachable: "reachable latin1_toLowerCase queried_store"
  using reachable.step [OF example_store_reachable, of "Query ''http://short.ly/yo82mvy''"
      "Value (Str ''http://example.com/a'')" queried_store]
  by (simp add: query_example)


section \<open>Short urls\<close>

lemma reused_SomeD:
  assumes "reused lc m = Some k"
  shows "k \<noteq> [] \<and> (\<exists>e. (k, e) \<in> set m \<and> longUrl e = lc)"
proof -
  from assms have ne: "matching lc m \<noteq> []" and k: "k = fst (last (matching lc m))" and "k \<noteq> []"
    by (auto simp: reused_def last_key_def split: option.splits if_splits)
  from ne have "last (matching lc m) \<in> set (matching lc m)" by (rule last_in_set)
  then have "last (matching lc m) \<in> set m \<and> longUrl (snd (last (matching lc m))) = lc"
    by (simp add: matching_def)
  with k \<open>k \<noteq> []\<close> show ?thesis by (metis prod.collapse)
qed

lemma reused_None_iff:
  "(reused lc m = None) = (matching lc m = [] \<or> fst (last (matching lc m)) = [])"
  by (auto simp: reused_def last_key_def split: option.splits if_splits)

lemma add_alias_stored:
  assumes "distinct (map fst (collection this))"
  shows "\<exists>e. map_of (add_collection toLowerCase rnd url this) (add_alias toLowerCase rnd url this) = Some e \<and>
           longUrl e = toLowerCase url \<and> active e"
proof (cases "reused (toLowerCase url) (collection this)")
  case None
  then show ?thesis by (simp add: add_alias_def add_collection_def)
next
  case (Some k)
  from reused_SomeD [OF Some] obtain e where "(k, e) \<in> set (collection this)"
    and "longUrl e = toLowerCase url" by blast
  with assms have "map_of (collection this) k = Some e" by simp
  with Some \<open>longUrl e = toLowerCase url\<close> show ?thesis
    by (simp add: add_alias_def add_collection_def map_of_set_active)
qed

lemma add_alias_no_slash:
  assumes "inv toLowerCase this" and "random_base36 rnd"
  shows "CHR ''/'' \<notin> set (add_alias toLowerCase rnd url this)"
proof (cases "reused (toLowerCase url) (collection this)")
  case None
  with assms(2) show ?thesis by (simp add: add_alias_def hash_no_slash)
next
  case (Some k)
  from reused_SomeD [OF Some] obtain e where "(k, e) \<in> set (collection this)" by blast
  with assms(1) have "entry_ok toLowerCase (baseUrl this) (k, e)" by (auto simp: inv_def list_all_iff)
  with Some show ?thesis by (simp add: add_alias_def entry_ok_def)
qed

lemma scheme_of_valid:
  assumes "urlSyntaxError toLowerCase url = Inr None"
  shows "hd (split CHR ''/'' (toLowerCase url)) = ''http:'' \<or>
         hd (split CHR ''/'' (toLowerCase url)) = ''https:''"
proof -
  from assms have "http_prefix toLowerCase url" by (simp add: urlSyntaxError_ok_iff)
  from http_prefix_pieces [OF this] obtain sch rest
    where "split CHR ''/'' (toLowerCase url) = sch # [] # rest"
      and "sch = ''http:'' \<or> sch = ''https:''" by blast
  then show ?thesis by simp
qed

lemma short_url_shape:
  assumes "sch = ''http:'' \<or> sch = ''https:''"
    and "CHR ''/'' \<notin> set d" and "CHR ''/'' \<notin> set key"
  shows "split CHR ''/'' (sch @ ''//'' @ d @ ''/'' @ key) = [sch, [], d, key]"
proof -
  from assms(1) have "CHR ''/'' \<notin> set sch" by auto
  then have "split CHR ''/'' (sch @ ''//'' @ d @ ''/'' @ key) =
      sch # [] # split CHR ''/'' (d @ ''/'' @ key)"
    by (rule split_scheme)
  also have "split CHR ''/'' (d @ ''/'' @ key) = [d, key]"
    using assms(2,3) by (simp add: split_append_sep split_no_sep)
  finally show ?thesis .
qed

lemma short_url_fold:
  assumes "is_toLowerCase toLowerCase" and "sch = ''http:'' \<or> sch = ''https:''"
    and "CHR ''/'' \<notin> set d" and "CHR ''/'' \<notin> set key"
  shows "toLowerCase (sch @ ''//'' @ d @ ''/'' @ key) =
           sch @ ''//'' @ toLowerCase d @ ''/'' @ toLowerCase key"
proof -
  define s where "s = sch @ ''//'' @ d @ ''/'' @ key"
  have "split CHR ''/'' s = [sch, [], d, key]"
    unfolding s_def using assms(2-4) by (rule short_url_shape)
  with assms(1) have "split CHR ''/'' (toLowerCase s) =
      [toLowerCase sch, toLowerCase [], toLowerCase d, toLowerCase key]"
    by (simp add: fold_split)
  moreover from assms(1) have "toLowerCase [] = []" by (simp add: fold_Nil_iff)
  moreover from assms(1,2) have "toLowerCase sch = sch" by (auto simp: fold_http)
  ultimately have "split CHR ''/'' (toLowerCase s) = [sch, [], toLowerCase d, toLowerCase key]"
    by simp
  then have "unsplit CHR ''/'' (split CHR ''/'' (toLowerCase s)) =
      unsplit CHR ''/'' [sch, [], toLowerCase d, toLowerCase key]"
    by (rule arg_cong)
  then have "toLowerCase s = sch @ ''//'' @ toLowerCase d @ ''/'' @ toLowerCase key"
    by simp
  then show ?thesis by (simp only: s_def)
qed

lemma short_url_valid:
  assumes "is_toLowerCase toLowerCase" and "sch = ''http:'' \<or> sch = ''https:''"
    and "CHR ''/'' \<notin> set d" and "CHR ''/'' \<notin> set key"
    and "CHR ''.'' \<in> set d"
  shows "urlSyntaxError toLowerCase (sch @ ''//'' @ d @ ''/'' @ key) = Inr None"
proof -
  define s where "s = sch @ ''//'' @ d @ ''/'' @ key"
  have "toLowerCase s = sch @ ''//'' @ toLowerCase d @ ''/'' @ toLowerCase key"
    unfolding s_def using assms(1-4) by (rule short_url_fold)
  with assms(2) have p: "http_prefix toLowerCase s"
    by (auto simp: http_prefix_def startsWith_def)
  have "split CHR ''/'' s = [sch, [], d, key]"
    unfolding s_def using assms(2-4) by (rule short_url_shape)
  then have "nth_opt (split CHR ''/'' s) 2 = Some d" by (simp add: nth_opt_def)
  moreover from assms(5) have "d \<noteq> []" by auto
  ultimately have "urlSyntaxError toLowerCase s = Inr None"
    using p assms(5) by (simp add: urlSyntaxError_ok_iff)
  then show ?thesis by (simp only: s_def)
qed

lemma short_url_same_origin:
  assumes "is_toLowerCase toLowerCase" and "sch = ''http:'' \<or> sch = ''https:''"
    and "CHR ''/'' \<notin> set d" and "CHR ''/'' \<notin> set key"
    and "toLowerCase d = d" and "baseUrl this = d"
  shows "isSameOrigin toLowerCase this (sch @ ''//'' @ d @ ''/'' @ key)"
proof -
  define s where "s = sch @ ''//'' @ d @ ''/'' @ key"
  have "split CHR ''/'' s = [sch, [], d, key]"
    unfolding s_def using assms(2-4) by (rule short_url_shape)
  then have "nth_opt (split CHR ''/'' s) 2 = Some d" by (simp add: nth_opt_def)
  with assms(1,5,6) have "isSameOrigin toLowerCase this s"
    by (simp add: isSameOrigin_iff fold_piece)
  then show ?thesis by (simp only: s_def)
qed

lemma not_same_origin_example:
  "\<not> isSameOrigin latin1_toLowerCase (constructor ''short.ly'') ''http://Example.com/a''"
  by (simp add: isSameOrigin_def lower_example_a nth_opt_def constructor_def)

lemma domain_short_ly:
  "CHR ''.'' \<in> set (baseUrl (constructor ''short.ly'')) \<and>
   CHR ''/'' \<notin> set (baseUrl (constructor ''short.ly'')) \<and>
   latin1_toLowerCase (baseUrl (constructor ''short.ly'')) = baseUrl (constructor ''short.ly'')"
  by (simp add: constructor_def latin1_fold)

lemma add_localhost:
  "add latin1_toLowerCase ''0.4fzyo82mvyr'' ''http://Example.com/a'' (constructor ''localhost'') =
     Inr (Value (Str ''http://localhost/yo82mvy''), localhost_store)"
  by (simp add: add_def valid_example_a lower_example_a isSameOrigin_def nth_opt_def
      constructor_def hash_example shortUrl_of_def localhost_store_def Let_def)

lemma query_localhost:
  "query latin1_toLowerCase ''http://localhost/yo82mvy'' localhost_store =
     Inr (Error ''URL_SYNTAX'' ''URL_SYNTAX: bad url http://localhost/yo82mvy'', localhost_store)"
  by (simp add: query_def urlSyntaxError_def latin1_fold startsWith_def
      nth_opt_def syntaxError_def)

lemma not_same_origin_localhost:
  "\<not> isSameOrigin latin1_toLowerCase (constructor ''localhost'') ''http://Example.com/a''"
  by (simp add: isSameOrigin_def lower_example_a nth_opt_def constructor_def)


section \<open>Runs of calls\<close>

lemma creates_iff:
  "distinct (map fst (collection this)) \<Longrightarrow>
     creates toLowerCase url this =
       (urlSyntaxError toLowerCase url = Inr None \<and> \<not> isSameOrigin toLowerCase this url \<and>
        reused (toLowerCase url) (collection this) = None)"
  by (auto simp: creates_def fold_add_each reused_def split: option.splits)

lemma query_outcome:
  assumes "query toLowerCase url this = Inr (r, this')"
  shows "(error_code r \<noteq> None \<and> this' = this) \<or>
     (\<exists>k e. map_of (collection this) k = Some e \<and> nth_opt (split CHR ''/'' url) 3 = Some k \<and>
        active e \<and> r = Value (Str (longUrl e)) \<and>
        this' = this\<lparr>collection :=
          map_set k (e\<lparr>hitCount := plus_one (hitCount e)\<rparr>) (collection this)\<rparr>)"
  using assms
  by (auto simp: query_def queryNotFound_def dest!: urlSyntaxError_Some
      split: sum.splits option.splits if_splits)

lemma add_outcome:
  assumes "add toLowerCase rnd url this = Inr (r, this')" and "distinct (map fst (collection this))"
  shows "this' = this \<or>
     (urlSyntaxError toLowerCase url = Inr None \<and> \<not> isSameOrigin toLowerCase this url \<and>
      this' = this\<lparr>collection := add_collection toLowerCase rnd url this\<rparr>)"
proof (cases "urlSyntaxError toLowerCase url = Inr None \<and> \<not> isSameOrigin toLowerCase this url")
  case True
  with assms show ?thesis by (simp add: add_valid)
next
  case False
  then have "this' = this" using assms(1) by (rule add_unchanged)
  then show ?thesis by simp
qed

lemma record_add:
  assumes "inv toLowerCase this" and "map_of (collection this) k = Some e"
    and "add toLowerCase rnd url this = Inr (r, this')" and "\<not> (creates toLowerCase url this \<and> generateHash rnd = k)"
  shows "\<exists>e'. map_of (collection this') k = Some e' \<and> longUrl e' = longUrl e \<and>
           hitCount e' = hitCount e \<and> (\<not> active e \<and> toLowerCase url \<noteq> longUrl e \<longrightarrow> \<not> active e')"
proof -
  from assms(1) have d: "distinct (map fst (collection this))" by (simp add: inv_def)
  from add_outcome [OF assms(3) d] show ?thesis
  proof
    assume "this' = this"
    with assms(2) show ?thesis by simp
  next
    assume a: "urlSyntaxError toLowerCase url = Inr None \<and> \<not> isSameOrigin toLowerCase this url \<and>
      this' = this\<lparr>collection := add_collection toLowerCase rnd url this\<rparr>"
    show ?thesis
    proof (cases "reused (toLowerCase url) (collection this)")
      case None
      with a d have "creates toLowerCase url this" by (simp add: creates_iff)
      with assms(4) have "generateHash rnd \<noteq> k" by blast
      with a None assms(2) show ?thesis
        by (auto simp: add_collection_def map_of_set_active)
    next
      case (Some k')
      with a assms(2) show ?thesis
        by (auto simp: add_collection_def map_of_set_active)
    qed
  qed
qed

lemma record_query:
  assumes "map_of (collection this) k = Some e" and "query toLowerCase url this = Inr (r, this')"
  shows "\<exists>e'. map_of (collection this') k = Some e' \<and> longUrl e' = longUrl e \<and>
           hitCount e' = (plus_one ^^ hit k (Query url) r) (hitCount e) \<and>
           (\<not> active e \<longrightarrow> \<not> active e')"
  using query_outcome [OF assms(2)] assms(1) by auto

lemma record_remove:
  assumes "inv toLowerCase this" and "map_of (collection this) k = Some e"
    and "remove toLowerCase url this = Inr (r, this')"
  shows "\<exists>e'. map_of (collection this') k = Some e' \<and> longUrl e' = longUrl e \<and>
           hitCount e' = hitCount e \<and> (\<not> active e \<longrightarrow> \<not> active e')"
proof -
  from assms(1) have d: "distinct (map fst (collection this))" by (simp add: inv_def)
  from remove_cases [OF assms(3) d] assms(2) show ?thesis
    by (auto simp: by_alias_Some_iff map_of_set_active)
qed

lemma record_step:
  assumes "inv toLowerCase this" and "map_of (collection this) k = Some e"
    and "exec toLowerCase c this = Inr (r, this')" and "\<not> collides toLowerCase k c this"
  shows "\<exists>e'. map_of (collection this') k = Some e' \<and> longUrl e' = longUrl e \<and>
           hitCount e' = (plus_one ^^ hit k c r) (hitCount e) \<and>
           (\<not> active e \<and> \<not> adds_url toLowerCase (longUrl e) c \<longrightarrow> \<not> active e')"
proof (cases c)
  case (Add rnd url)
  with assms record_add [of toLowerCase this k e rnd url r this'] show ?thesis by auto
next
  case (Query url)
  with assms record_query [of this k e toLowerCase url r this'] show ?thesis by auto
next
  case (Count url)
  with assms count_state [of toLowerCase url this r this'] show ?thesis by auto
next
  case (Remove url)
  with assms record_remove [of toLowerCase this k e url r this'] show ?thesis by auto
qed

text \<open>
  The hit count of a record after a run: one \<open>count + 1\<close> for each successful \<open>query\<close>
  of its alias.
\<close>

lemma record_run:
  assumes "is_toLowerCase toLowerCase"
    and "inv toLowerCase this" and "map_of (collection this) k = Some e"
    and "list_all legal cs" and "collision_free toLowerCase k cs this"
  shows "\<exists>this' e'. run toLowerCase cs this = Inr this' \<and> inv toLowerCase this' \<and> baseUrl this' = baseUrl this \<and>
           map_of (collection this') k = Some e' \<and> longUrl e' = longUrl e \<and>
           hitCount e' = (plus_one ^^ hits toLowerCase k cs this) (hitCount e) \<and>
           (\<not> active e \<and> list_all (\<lambda>c. \<not> adds_url toLowerCase (longUrl e) c) cs \<longrightarrow> \<not> active e')"
  using assms(2-)
proof (induction cs arbitrary: this e)
  case Nil
  then show ?case by simp
next
  case (Cons c cs)
  from exec_total [OF assms(1), of c this] obtain r s
    where x: "exec toLowerCase c this = Inr (r, s)" by blast
  from Cons.prems x have nc: "\<not> collides toLowerCase k c this" and cf: "collision_free toLowerCase k cs s"
    and l: "legal c" and ls: "list_all legal cs"
    by simp_all
  from inv_exec [OF Cons.prems(1) l x] have i: "inv toLowerCase s" and b: "baseUrl s = baseUrl this"
    by simp_all
  from record_step [OF Cons.prems(1,2) x nc] obtain e1
    where e1: "map_of (collection s) k = Some e1" "longUrl e1 = longUrl e"
      "hitCount e1 = (plus_one ^^ hit k c r) (hitCount e)"
      "\<not> active e \<and> \<not> adds_url toLowerCase (longUrl e) c \<longrightarrow> \<not> active e1"
    by blast
  from Cons.IH [OF i e1(1) ls cf] obtain s' e'
    where r: "run toLowerCase cs s = Inr s'" "inv toLowerCase s'" "baseUrl s' = baseUrl s"
      "map_of (collection s') k = Some e'" "longUrl e' = longUrl e1"
      "hitCount e' = (plus_one ^^ hits toLowerCase k cs s) (hitCount e1)"
      "\<not> active e1 \<and> list_all (\<lambda>c. \<not> adds_url toLowerCase (longUrl e1) c) cs \<longrightarrow> \<not> active e'"
    by blast
  have "(plus_one ^^ (hits toLowerCase k cs s + hit k c r)) (hitCount e) =
      (plus_one ^^ hits toLowerCase k cs s) ((plus_one ^^ hit k c r) (hitCount e))"
    by (simp add: funpow_add)
  then have h: "hitCount e' = (plus_one ^^ hits toLowerCase k (c # cs) this) (hitCount e)"
    using x r(6) e1(3) by (simp add: add.commute)
  from x r(1-5,7) e1(2,4) b h show ?case by simp
qed

lemma funpow_plus_one: "n + h \<le> 2 ^ 53 \<Longrightarrow> (plus_one ^^ h) n = n + h"
  by (induction h) (simp_all add: plus_one_def)

lemma reachable_run:
  assumes "is_toLowerCase toLowerCase"
  shows "reachable toLowerCase this \<Longrightarrow> list_all legal cs \<Longrightarrow> run toLowerCase cs this = Inr this' \<Longrightarrow>
     reachable toLowerCase this'"
proof (induction cs arbitrary: this)
  case Nil
  then show ?case by simp
next
  case (Cons c cs)
  from exec_total [OF assms, of c this] obtain r s
    where x: "exec toLowerCase c this = Inr (r, s)" by blast
  with Cons.prems have "reachable toLowerCase s" by (auto intro: reachable.step)
  with Cons x show ?case by simp
qed


section \<open>One record for each long url\<close>

lemma image_keys_set_active [simp]: "fst ` set (set_active b lc m) = fst ` set m"
  using set_active_keys [of b lc m] by (metis list.set_map)

lemma image_keys_map_set [simp]: "fst ` set (map_set k v m) = insert k (fst ` set m)"
  using set_keys_map_set [of k v m] by (metis list.set_map)

lemma urls_set_active [simp]:
  "map (\<lambda>entry. longUrl (snd entry)) (set_active b lc m) = map (\<lambda>entry. longUrl (snd entry)) m"
  by (induction m) (auto simp: set_active_def)

lemma urls_map_set_same:
  "distinct (map fst m) \<Longrightarrow> map_of m k = Some e \<Longrightarrow> longUrl v = longUrl e \<Longrightarrow>
     map (\<lambda>entry. longUrl (snd entry)) (map_set k v m) = map (\<lambda>entry. longUrl (snd entry)) m"
proof (induction m)
  case Nil
  then show ?case by simp
next
  case (Cons p m)
  then show ?case by (cases p) (auto split: if_splits)
qed

lemma urls_map_set_subset:
  "set (map (\<lambda>entry. longUrl (snd entry)) (map_set k v m)) \<subseteq>
     insert (longUrl v) (set (map (\<lambda>entry. longUrl (snd entry)) m))"
  using set_map_set_subset [of k v m] by auto

lemma unique_map_set_new:
  "unique_urls m \<Longrightarrow> longUrl v \<notin> set (map (\<lambda>entry. longUrl (snd entry)) m) \<Longrightarrow>
     unique_urls (map_set k v m)"
proof (induction m)
  case Nil
  then show ?case by (simp add: unique_urls_def)
next
  case (Cons p m)
  show ?case
  proof (cases "fst p = k")
    case True
    with Cons.prems show ?thesis by (simp add: unique_urls_def)
  next
    case False
    from Cons have u: "unique_urls (map_set k v m)" by (simp add: unique_urls_def)
    have "longUrl (snd p) \<notin> set (map (\<lambda>entry. longUrl (snd entry)) (map_set k v m))"
      using urls_map_set_subset [of k v m] Cons.prems by (auto simp: unique_urls_def)
    with u False show ?thesis by (simp add: unique_urls_def)
  qed
qed

lemma matching_Nil_iff:
  "(matching lc m = []) = (lc \<notin> set (map (\<lambda>entry. longUrl (snd entry)) m))"
  by (auto simp: matching_def filter_empty_conv)

lemma last_matching_key:
  "matching lc m \<noteq> [] \<Longrightarrow> fst (last (matching lc m)) \<in> set (map fst m)"
proof -
  assume "matching lc m \<noteq> []"
  then have "last (matching lc m) \<in> set (matching lc m)" by (rule last_in_set)
  then show ?thesis by (auto simp: matching_def)
qed

lemma unique_add:
  assumes "no_empty_alias this" and "unique_urls (collection this)"
  shows "unique_urls (add_collection toLowerCase rnd url this)"
proof (cases "reused (toLowerCase url) (collection this)")
  case (Some k)
  with assms(2) show ?thesis by (simp add: add_collection_def unique_urls_def)
next
  case None
  have "matching (toLowerCase url) (collection this) = []"
  proof (rule ccontr)
    assume ne: "matching (toLowerCase url) (collection this) \<noteq> []"
    with None have "fst (last (matching (toLowerCase url) (collection this))) = []"
      by (simp add: reused_None_iff)
    with last_matching_key [OF ne] assms(1) show False by (simp add: no_empty_alias_def)
  qed
  then have "toLowerCase url \<notin> set (map (\<lambda>entry. longUrl (snd entry))
      (set_active True (toLowerCase url) (collection this)))"
    by (simp add: matching_Nil_iff)
  moreover have "unique_urls (set_active True (toLowerCase url) (collection this))"
    using assms(2) by (simp add: unique_urls_def)
  ultimately show ?thesis
    using None by (simp add: add_collection_def unique_map_set_new)
qed

lemma keys_add_collection:
  "fst ` set (collection this) \<subseteq> fst ` set (add_collection toLowerCase rnd url this)"
  by (simp add: add_collection_def subset_insertI split: option.splits)

lemma keys_grow:
  assumes "inv toLowerCase this" and "exec toLowerCase c this = Inr (r, this')"
  shows "fst ` set (collection this) \<subseteq> fst ` set (collection this')"
proof -
  from assms(1) have d: "distinct (map fst (collection this))" by (simp add: inv_def)
  show ?thesis
  proof (cases c)
    case (Add rnd url)
    with assms(2) have "add toLowerCase rnd url this = Inr (r, this')" by simp
    from add_outcome [OF this d] keys_add_collection [of this toLowerCase rnd url] show ?thesis
      by (elim disjE conjE) simp_all
  next
    case (Query url)
    with assms(2) have "query toLowerCase url this = Inr (r, this')" by simp
    from query_outcome [OF this] show ?thesis
      by (elim disjE conjE exE) (simp_all add: subset_insertI)
  next
    case (Count url)
    with assms(2) count_state [of toLowerCase url this r this'] show ?thesis by simp
  next
    case (Remove url)
    with assms(2) have "remove toLowerCase url this = Inr (r, this')" by simp
    from remove_cases [OF this d] show ?thesis
      by (elim disjE conjE exE) (simp_all add: subset_insertI)
  qed
qed

lemma unique_exec:
  assumes "inv toLowerCase this" and "exec toLowerCase c this = Inr (r, this')"
    and "no_empty_alias this'" and "unique_urls (collection this)"
  shows "unique_urls (collection this')"
proof -
  from assms(1) have d: "distinct (map fst (collection this))" by (simp add: inv_def)
  from keys_grow [OF assms(1,2)] assms(3) have n: "no_empty_alias this"
    by (auto simp: no_empty_alias_def)
  show ?thesis
  proof (cases c)
    case (Add rnd url)
    with assms(2) add_outcome [of toLowerCase rnd url this r this'] d
      unique_add [OF n assms(4), of toLowerCase rnd url]
      assms(4)
    show ?thesis by auto
  next
    case (Query url)
    with assms(2) query_outcome [of toLowerCase url this r this'] assms(4) d show ?thesis
      by (auto simp: unique_urls_def urls_map_set_same)
  next
    case (Count url)
    with assms(2) count_state [of toLowerCase url this r this'] assms(4) show ?thesis by auto
  next
    case (Remove url)
    with assms(2) remove_cases [of toLowerCase url this r this'] d assms(4) show ?thesis
      by (auto simp: unique_urls_def urls_map_set_same by_alias_Some_iff)
  qed
qed

lemma reachable_unique:
  "reachable toLowerCase this \<Longrightarrow> no_empty_alias this \<Longrightarrow> unique_urls (collection this)"
proof (induction rule: reachable.induct)
  case (init domain)
  then show ?case by (simp add: unique_urls_def constructor_def)
next
  case (step this c r this')
  from step.hyps(1) have i: "inv toLowerCase this" by (rule reachable_inv)
  from keys_grow [OF i step.hyps(3)] step.prems have "no_empty_alias this"
    by (auto simp: no_empty_alias_def)
  with step.IH have "unique_urls (collection this)" .
  with i step.hyps(3) step.prems show ?case by (rule unique_exec)
qed

lemma filter_unique:
  "distinct (map f xs) \<Longrightarrow> x \<in> set xs \<Longrightarrow> filter (\<lambda>y. f y = f x) xs = [x]"
proof (induction xs)
  case Nil
  then show ?case by simp
next
  case (Cons a xs)
  show ?case
  proof (cases "x = a")
    case True
    with Cons.prems(1) have "\<forall>y \<in> set xs. f y \<noteq> f x" by (metis distinct.simps(2) imageI list.simps(9) list.set_map)
    then have "filter (\<lambda>y. f y = f x) xs = []" by (simp add: filter_empty_conv)
    with True show ?thesis by simp
  next
    case False
    with Cons.prems have "x \<in> set xs" by simp
    with Cons.prems(1) have "f a \<noteq> f x" by (metis distinct.simps(2) imageI list.simps(9) list.set_map)
    with Cons \<open>x \<in> set xs\<close> show ?thesis by simp
  qed
qed

lemma long_form:
  assumes "is_toLowerCase toLowerCase"
    and "inv toLowerCase this" and "map_of (collection this) k = Some e"
    and "toLowerCase u = longUrl e"
  shows "urlSyntaxError toLowerCase u = Inr None \<and> \<not> isSameOrigin toLowerCase this u"
proof -
  from inv_entry [OF assms(2,3)] obtain u0 where l: "longUrl e = toLowerCase u0"
    and v: "urlSyntaxError toLowerCase u0 = Inr None"
    and n: "nth_opt (split CHR ''/'' (toLowerCase u0)) 2 \<noteq> Some (baseUrl this)"
    by (auto simp: entry_ok_def)
  from assms(4) l have f: "toLowerCase u = toLowerCase u0" by simp
  from assms(1) f v have "urlSyntaxError toLowerCase u = Inr None" by (rule same_fold_valid)
  moreover from n f have "\<not> isSameOrigin toLowerCase this u" by (simp add: isSameOrigin_iff)
  ultimately show ?thesis by simp
qed

lemma count_long:
  assumes "is_toLowerCase toLowerCase"
    and "inv toLowerCase this" and "unique_urls (collection this)"
    and "map_of (collection this) k = Some e" and "toLowerCase u = longUrl e"
  shows "count toLowerCase u this = Inr (Value (Num (hitCount e)), this)"
proof -
  from long_form [OF assms(1,2,4,5)] have v: "urlSyntaxError toLowerCase u = Inr None"
    and s: "\<not> isSameOrigin toLowerCase this u" by simp_all
  from assms(4) have m: "(k, e) \<in> set (collection this)" by (rule map_of_SomeD)
  from assms(3) have "distinct (map (\<lambda>entry. longUrl (snd entry)) (collection this))"
    by (simp add: unique_urls_def)
  from filter_unique [OF this m] assms(5)
  have "matching (toLowerCase u) (collection this) = [(k, e)]"
    by (simp add: matching_def)
  with v s show ?thesis by (simp add: count_valid by_alias_def)
qed

lemma count_short:
  assumes "urlSyntaxError toLowerCase short = Inr None" and "isSameOrigin toLowerCase this short"
    and "nth_opt (split CHR ''/'' short) 3 = Some k" and "map_of (collection this) k = Some e"
  shows "count toLowerCase short this = Inr (Value (Num (hitCount e)), this)"
  using assms by (simp add: count_valid by_alias_def)


section \<open>Further examples\<close>

lemma lower_other: "latin1_toLowerCase ''http://other.org/b'' = ''http://other.org/b''"
  by (simp add: latin1_fold)

lemma valid_other: "urlSyntaxError latin1_toLowerCase ''http://other.org/b'' = Inr None"
  by (simp add: urlSyntaxError_def lower_other startsWith_def nth_opt_def)

lemma valid_example_a': "urlSyntaxError latin1_toLowerCase ''http://example.com/a'' = Inr None"
  by (simp add: urlSyntaxError_def lower_example_a' startsWith_def nth_opt_def)

lemma hash_collision: "generateHash ''0.9q1yo82mvy3'' = ''yo82mvy''"
  by (simp add: generateHash_def slice_def)

lemma random_collision: "random_base36 ''0.9q1yo82mvy3''"
  by (simp add: random_base36_def base36_digit_def)

lemma hash_half: "generateHash ''0.i'' = []"
  by (simp add: generateHash_def slice_def)

lemma random_half: "random_base36 ''0.i''"
  by (simp add: random_base36_def base36_digit_def)

lemma remove_short_example:
  "remove latin1_toLowerCase ''http://short.ly/yo82mvy'' example_store = Inr (Empty, inactive_store)"
  by (simp add: remove_def valid_alias by_alias_def isSameOrigin_def lower_alias nth_opt_def
      example_store_def inactive_store_def)

lemma query_inactive:
  "query latin1_toLowerCase ''http://short.ly/yo82mvy'' inactive_store =
     Inr (Error ''NOT_FOUND'' ''NOT_FOUND: http://short.ly/yo82mvy not found'', inactive_store)"
  by (simp add: query_def valid_alias isSameOrigin_def lower_alias nth_opt_def
      inactive_store_def queryNotFound_def)

lemma add_collision_inactive:
  "add latin1_toLowerCase ''0.9q1yo82mvy3'' ''http://other.org/b'' inactive_store =
     Inr (Value (Str ''http://short.ly/yo82mvy''), other_store)"
  by (simp add: add_def valid_other lower_other isSameOrigin_def nth_opt_def hash_collision
      shortUrl_of_def inactive_store_def other_store_def add_each_def Let_def)

lemma add_collision_queried:
  "add latin1_toLowerCase ''0.9q1yo82mvy3'' ''http://other.org/b'' queried_store =
     Inr (Value (Str ''http://short.ly/yo82mvy''), other_store)"
  by (simp add: add_def valid_other lower_other isSameOrigin_def nth_opt_def hash_collision
      shortUrl_of_def queried_store_def other_store_def add_each_def Let_def)

lemma query_other:
  "query latin1_toLowerCase ''http://short.ly/yo82mvy'' other_store =
     Inr (Value (Str ''http://other.org/b''),
          \<lparr>baseUrl = ''short.ly'',
           collection = [(''yo82mvy'',
             \<lparr>longUrl = ''http://other.org/b'', hitCount = 1, active = True\<rparr>)]\<rparr>)"
  by (simp add: query_def valid_alias isSameOrigin_def lower_alias nth_opt_def other_store_def
      plus_one_def)

lemma count_other:
  "count latin1_toLowerCase ''http://short.ly/yo82mvy'' other_store = Inr (Value (Num 0), other_store)"
  by (simp add: count_def valid_alias by_alias_def isSameOrigin_def lower_alias nth_opt_def
      other_store_def)

lemma count_example_other:
  "count latin1_toLowerCase ''http://example.com/a'' other_store =
     Inr (Error ''NOT_FOUND'' ''url was never registered for this service'', other_store)"
  by (simp add: count_def valid_example_a' by_alias_def isSameOrigin_def lower_example_a'
      nth_opt_def other_store_def count_each_def notFound_def)

lemma remove_long_queried:
  "remove latin1_toLowerCase ''http://Example.com/a'' queried_store = Inr (Empty, inactive_queried_store)"
  by (simp add: remove_def valid_example_a by_alias_def isSameOrigin_def lower_example_a
      nth_opt_def queried_store_def inactive_queried_store_def remove_each_def Let_def)

lemma add_again:
  "add latin1_toLowerCase ''0.4fzyo82mvyr'' ''http://Example.com/a'' inactive_queried_store =
     Inr (Value (Str ''http://short.ly/yo82mvy''), queried_store)"
  by (simp add: add_def valid_example_a lower_example_a isSameOrigin_def nth_opt_def
      shortUrl_of_def queried_store_def inactive_queried_store_def add_each_def Let_def)

lemma not_creates_again: "\<not> creates latin1_toLowerCase ''http://Example.com/a'' inactive_queried_store"
  by (simp add: creates_def lower_example_a inactive_queried_store_def add_each_def)

lemma add_half:
  "add latin1_toLowerCase ''0.i'' ''http://example.com/a'' (constructor ''short.ly'') =
     Inr (Value (Str ''http://short.ly/''), empty_alias_store)"
  by (simp add: add_def valid_example_a' lower_example_a' isSameOrigin_def nth_opt_def
      constructor_def hash_half shortUrl_of_def empty_alias_store_def Let_def)

lemma add_after_half:
  "add latin1_toLowerCase ''0.4fzyo82mvyr'' ''http://example.com/a'' empty_alias_store =
     Inr (Value (Str ''http://short.ly/yo82mvy''), duplicate_store)"
  by (simp add: add_def valid_example_a' lower_example_a' isSameOrigin_def nth_opt_def
      hash_example shortUrl_of_def empty_alias_store_def duplicate_store_def add_each_def Let_def)

lemma lower_own: "latin1_toLowerCase ''http://short.ly/x'' = ''http://short.ly/x''"
  by (simp add: latin1_fold)

lemma add_own:
  "add latin1_toLowerCase ''0.4fzyo82mvyr'' ''http://short.ly/x'' (constructor ''short.ly'') =
     Inr (Error ''DOMAIN'' ''longUrl domain is equal to SHORTENER_DOMAIN'', constructor ''short.ly'')"
  by (simp add: add_def urlSyntaxError_def lower_own startsWith_def isSameOrigin_def nth_opt_def
      constructor_def)

lemma query_foreign:
  "query latin1_toLowerCase ''http://example.com/a'' (constructor ''short.ly'') =
     Inr (Error ''DOMAIN'' ''shortUrl domain is not equal to SHORTENER_DOMAIN'',
          constructor ''short.ly'')"
  by (simp add: query_def valid_example_a' isSameOrigin_def lower_example_a' nth_opt_def
      constructor_def)

lemma count_unknown:
  "count latin1_toLowerCase ''http://example.com/a'' (constructor ''short.ly'') =
     Inr (Error ''NOT_FOUND'' ''url was never registered for this service'',
          constructor ''short.ly'')"
  by (simp add: count_def valid_example_a' by_alias_def isSameOrigin_def lower_example_a'
      nth_opt_def constructor_def notFound_def)

lemma no_code_prefix:
  "\<not> startsWith ''longUrl domain is equal to SHORTENER_DOMAIN'' ''DOMAIN: ''"
  "\<not> startsWith ''shortUrl domain is not equal to SHORTENER_DOMAIN'' ''DOMAIN: ''"
  "\<not> startsWith ''url was never registered for this service'' ''NOT_FOUND: ''"
  by (simp_all add: startsWith_def)

lemma lower_accent: "latin1_toLowerCase accent_url = accent_folded"
  by (simp add: latin1_fold accent_url_def accent_folded_def)

lemma lower_accent_capitals: "latin1_toLowerCase accent_capitals = accent_folded"
  by (simp add: latin1_fold accent_capitals_def accent_folded_def)

lemma valid_accent: "urlSyntaxError latin1_toLowerCase accent_url = Inr None"
  by (simp add: urlSyntaxError_def lower_accent startsWith_def nth_opt_def)
     (simp add: accent_url_def accent_folded_def)

lemma valid_accent_capitals: "urlSyntaxError latin1_toLowerCase accent_capitals = Inr None"
  by (simp add: urlSyntaxError_def lower_accent_capitals startsWith_def nth_opt_def)
     (simp add: accent_capitals_def accent_folded_def)

lemma add_accent:
  "add latin1_toLowerCase ''0.4fzyo82mvyr'' accent_url (constructor ''short.ly'') =
     Inr (Value (Str ''http://short.ly/yo82mvy''), accent_store)"
  by (simp add: add_def valid_accent lower_accent isSameOrigin_def nth_opt_def
      constructor_def hash_example shortUrl_of_def accent_store_def Let_def)
     (simp add: accent_folded_def)

lemma accent_store_reachable: "reachable latin1_toLowerCase accent_store"
proof (rule reachable.step)
  show "reachable latin1_toLowerCase (constructor ''short.ly'')" by (rule reachable.init)
  show "legal (Add ''0.4fzyo82mvyr'' accent_url)" by (simp add: random_example)
  show "exec latin1_toLowerCase (Add ''0.4fzyo82mvyr'' accent_url) (constructor ''short.ly'') =
      Inr (Value (Str ''http://short.ly/yo82mvy''), accent_store)"
    by (simp add: add_accent)
qed

lemma not_same_origin_accent:
  "\<not> isSameOrigin latin1_toLowerCase accent_store accent_capitals"
  by (simp add: isSameOrigin_def lower_accent_capitals nth_opt_def accent_store_def)
     (simp add: accent_folded_def)

lemma remove_short_accent:
  "remove latin1_toLowerCase ''http://short.ly/yo82mvy'' accent_store =
     Inr (Empty, accent_inactive_store)"
  by (simp add: remove_def valid_alias by_alias_def isSameOrigin_def lower_alias nth_opt_def
      accent_store_def accent_inactive_store_def)

lemma query_accent_inactive:
  "query latin1_toLowerCase ''http://short.ly/yo82mvy'' accent_inactive_store =
     Inr (Error ''NOT_FOUND'' ''NOT_FOUND: http://short.ly/yo82mvy not found'',
          accent_inactive_store)"
  by (simp add: query_def valid_alias isSameOrigin_def lower_alias nth_opt_def
      accent_inactive_store_def queryNotFound_def)

lemma not_same_origin_accent_url:
  "\<not> isSameOrigin latin1_toLowerCase (constructor ''short.ly'') accent_url"
  by (simp add: isSameOrigin_def lower_accent nth_opt_def constructor_def)
     (simp add: accent_folded_def)

lemma add_accent_domain:
  "add latin1_toLowerCase ''0.4fzyo82mvyr'' ''http://Example.com/a'' (constructor accent_domain) =
     Inr (Value (Str (''http://'' @ accent_domain @ ''/yo82mvy'')), accent_domain_store)"
  by (simp add: add_def valid_example_a lower_example_a isSameOrigin_def nth_opt_def
      constructor_def hash_example shortUrl_of_def accent_domain_store_def Let_def
      accent_domain_def)

lemma accent_domain_store_reachable: "reachable latin1_toLowerCase accent_domain_store"
proof (rule reachable.step)
  show "reachable latin1_toLowerCase (constructor accent_domain)" by (rule reachable.init)
  show "legal (Add ''0.4fzyo82mvyr'' ''http://Example.com/a'')" by (simp add: random_example)
  show "exec latin1_toLowerCase (Add ''0.4fzyo82mvyr'' ''http://Example.com/a'')
      (constructor accent_domain) =
      Inr (Value (Str (''http://'' @ accent_domain @ ''/yo82mvy'')), accent_domain_store)"
    by (simp only: exec.simps add_accent_domain)
qed

lemma lower_accent_short:
  "latin1_toLowerCase accent_short = ''http://'' @ accent_domain @ ''/yo82mvy''"
  by (simp add: latin1_fold accent_short_def accent_domain_def)

lemma authority_accent_short:
  "nth_opt (split CHR ''/'' accent_short) 2 = Some (CHR 0xC9 # ''.LY'')"
  by (simp add: nth_opt_def accent_short_def)

lemma alias_accent_short: "nth_opt (split CHR ''/'' accent_short) 3 = Some ''yo82mvy''"
  by (simp add: nth_opt_def accent_short_def)

lemma valid_accent_short: "urlSyntaxError latin1_toLowerCase accent_short = Inr None"
  by (simp add: urlSyntaxError_def lower_accent_short startsWith_def authority_accent_short)

lemma lower_accent_authority: "latin1_toLowerCase (CHR 0xC9 # ''.LY'') = accent_domain"
  by (simp add: latin1_fold accent_domain_def)


section \<open>The claims\<close>

text \<open>
  C1, as amended.  Let the configured domain be its own fold, contain a dot and contain no
  slash.  Then for every well-formed long url whose folded authority is not the domain,
  \<open>add\<close> returns a short url, and \<open>query\<close> on that short url succeeds with the fold
  of the long url.
\<close>

theorem add_then_query:
  assumes "is_toLowerCase toLowerCase"
    and "reachable toLowerCase this" and "random_base36 rnd"
    and "urlSyntaxError toLowerCase url = Inr None" and "\<not> isSameOrigin toLowerCase this url"
    and "CHR ''.'' \<in> set (baseUrl this)" and "CHR ''/'' \<notin> set (baseUrl this)"
    and "toLowerCase (baseUrl this) = baseUrl this"
  shows "\<exists>short this' this''.
           add toLowerCase rnd url this = Inr (Value (Str short), this') \<and>
           query toLowerCase short this' = Inr (Value (Str (toLowerCase url)), this'')"
proof -
  note f = assms(1)
  from assms(2) have i: "inv toLowerCase this" by (rule reachable_inv)
  then have d: "distinct (map fst (collection this))" by (simp add: inv_def)
  define sch where "sch = hd (split CHR ''/'' (toLowerCase url))"
  define key where "key = add_alias toLowerCase rnd url this"
  define short where "short = sch @ ''//'' @ baseUrl this @ ''/'' @ key"
  define this' where "this' = this\<lparr>collection := add_collection toLowerCase rnd url this\<rparr>"
  have a: "add toLowerCase rnd url this = Inr (Value (Str short), this')"
    unfolding short_def sch_def key_def this'_def
    using add_valid [OF assms(4,5) d, of rnd] by (simp only: shortUrl_of_def)
  have s: "sch = ''http:'' \<or> sch = ''https:''"
    unfolding sch_def using assms(4) by (rule scheme_of_valid)
  have n: "CHR ''/'' \<notin> set key"
    unfolding key_def using i assms(3) by (rule add_alias_no_slash)
  have v: "urlSyntaxError toLowerCase short = Inr None"
    unfolding short_def using f s assms(7) n assms(6) by (rule short_url_valid)
  have b: "baseUrl this' = baseUrl this" by (simp add: this'_def)
  have o: "isSameOrigin toLowerCase this' short"
    unfolding short_def using f s assms(7) n assms(8) b by (rule short_url_same_origin)
  have "split CHR ''/'' short = [sch, [], baseUrl this, key]"
    unfolding short_def using s assms(7) n by (rule short_url_shape)
  then have p: "nth_opt (split CHR ''/'' short) 3 = Some key" by (simp add: nth_opt_def)
  from add_alias_stored [OF d, of toLowerCase rnd url] obtain e
    where e: "map_of (collection this') key = Some e" "longUrl e = toLowerCase url" "active e"
    by (auto simp: this'_def key_def)
  from assms(4) have "toLowerCase url \<noteq> []" by (rule valid_fold_not_Nil)
  with v o p e have "\<exists>this''. query toLowerCase short this' = Inr (Value (Str (toLowerCase url)), this'')"
    by (simp add: query_def)
  with a show ?thesis by blast
qed

theorem add_then_query_witness:
  "is_toLowerCase latin1_toLowerCase \<and>
   reachable latin1_toLowerCase (constructor ''short.ly'') \<and> random_base36 ''0.4fzyo82mvyr'' \<and>
   urlSyntaxError latin1_toLowerCase accent_url = Inr None \<and>
   \<not> isSameOrigin latin1_toLowerCase (constructor ''short.ly'') accent_url \<and>
   CHR ''.'' \<in> set (baseUrl (constructor ''short.ly'')) \<and>
   CHR ''/'' \<notin> set (baseUrl (constructor ''short.ly'')) \<and>
   latin1_toLowerCase (baseUrl (constructor ''short.ly'')) = baseUrl (constructor ''short.ly'') \<and>
   (\<exists>short this' this''.
      add latin1_toLowerCase ''0.4fzyo82mvyr'' accent_url (constructor ''short.ly'') =
        Inr (Value (Str short), this') \<and>
      query latin1_toLowerCase short this' = Inr (Value (Str accent_folded), this''))"
proof -
  have r: "reachable latin1_toLowerCase (constructor ''short.ly'')" by (rule reachable.init)
  from domain_short_ly
  have d: "CHR ''.'' \<in> set (baseUrl (constructor ''short.ly''))"
    "CHR ''/'' \<notin> set (baseUrl (constructor ''short.ly''))"
    "latin1_toLowerCase (baseUrl (constructor ''short.ly'')) = baseUrl (constructor ''short.ly'')"
    by blast+
  from add_then_query [OF latin1_is_toLowerCase r random_example valid_accent
      not_same_origin_accent_url d]
  have "\<exists>short this' this''.
      add latin1_toLowerCase ''0.4fzyo82mvyr'' accent_url (constructor ''short.ly'') =
        Inr (Value (Str short), this') \<and>
      query latin1_toLowerCase short this' = Inr (Value (Str accent_folded), this'')"
    by (simp only: lower_accent)
  with latin1_is_toLowerCase r random_example valid_accent not_same_origin_accent_url d
  show ?thesis by blast
qed

theorem add_then_query_counterexample:
  "reachable latin1_toLowerCase (constructor ''localhost'') \<and> random_base36 ''0.4fzyo82mvyr'' \<and>
   urlSyntaxError latin1_toLowerCase ''http://Example.com/a'' = Inr None \<and>
   \<not> isSameOrigin latin1_toLowerCase (constructor ''localhost'') ''http://Example.com/a'' \<and>
   add latin1_toLowerCase ''0.4fzyo82mvyr'' ''http://Example.com/a'' (constructor ''localhost'') =
     Inr (Value (Str ''http://localhost/yo82mvy''),
          \<lparr>baseUrl = ''localhost'',
           collection = [(''yo82mvy'',
             \<lparr>longUrl = ''http://example.com/a'', hitCount = 0, active = True\<rparr>)]\<rparr>) \<and>
   query latin1_toLowerCase ''http://localhost/yo82mvy''
     \<lparr>baseUrl = ''localhost'',
      collection = [(''yo82mvy'',
        \<lparr>longUrl = ''http://example.com/a'', hitCount = 0, active = True\<rparr>)]\<rparr> =
     Inr (Error ''URL_SYNTAX'' ''URL_SYNTAX: bad url http://localhost/yo82mvy'',
          \<lparr>baseUrl = ''localhost'',
           collection = [(''yo82mvy'',
             \<lparr>longUrl = ''http://example.com/a'', hitCount = 0, active = True\<rparr>)]\<rparr>)"
  using reachable.init [of latin1_toLowerCase "''localhost''"] random_example valid_example_a
    not_same_origin_localhost add_localhost query_localhost
  by (simp only: localhost_store_def simp_thms)

text \<open>
  C2.  The claim does not hold of the code: the messages of the \<open>DOMAIN\<close> errors of
  \<open>add\<close> and \<open>query\<close>, and of the \<open>NOT_FOUND\<close> error of \<open>count\<close> and
  \<open>remove\<close>, do not begin with the error code.  With the domain \<open>short.ly\<close>:
\<close>

theorem error_messages_without_code_prefix:
  "add latin1_toLowerCase ''0.4fzyo82mvyr'' ''http://short.ly/x'' (constructor ''short.ly'') =
     Inr (Error ''DOMAIN'' ''longUrl domain is equal to SHORTENER_DOMAIN'',
          constructor ''short.ly'') \<and>
   \<not> startsWith ''longUrl domain is equal to SHORTENER_DOMAIN'' ''DOMAIN: '' \<and>
   query latin1_toLowerCase ''http://example.com/a'' (constructor ''short.ly'') =
     Inr (Error ''DOMAIN'' ''shortUrl domain is not equal to SHORTENER_DOMAIN'',
          constructor ''short.ly'') \<and>
   \<not> startsWith ''shortUrl domain is not equal to SHORTENER_DOMAIN'' ''DOMAIN: '' \<and>
   count latin1_toLowerCase ''http://example.com/a'' (constructor ''short.ly'') =
     Inr (Error ''NOT_FOUND'' ''url was never registered for this service'',
          constructor ''short.ly'') \<and>
   \<not> startsWith ''url was never registered for this service'' ''NOT_FOUND: ''"
  using add_own query_foreign count_unknown no_code_prefix by (simp only: simp_thms)

text \<open>
  C3.  The claim does not hold of the code when \<open>Math.random\<close> draws one half, whose
  base-36 text \<open>0.i\<close> gives the empty alias: the second \<open>add\<close> of the same long url
  finds the record, takes its empty alias for no alias, and stores a second record under a
  new alias.
\<close>

theorem add_twice_with_empty_alias:
  "random_base36 ''0.i'' \<and> random_base36 ''0.4fzyo82mvyr'' \<and>
   add latin1_toLowerCase ''0.i'' ''http://example.com/a'' (constructor ''short.ly'') =
     Inr (Value (Str ''http://short.ly/''),
       \<lparr>baseUrl = ''short.ly'',
        collection =
          [([], \<lparr>longUrl = ''http://example.com/a'', hitCount = 0, active = True\<rparr>)]\<rparr>) \<and>
   add latin1_toLowerCase ''0.4fzyo82mvyr'' ''http://example.com/a''
     \<lparr>baseUrl = ''short.ly'',
      collection =
        [([], \<lparr>longUrl = ''http://example.com/a'', hitCount = 0, active = True\<rparr>)]\<rparr> =
     Inr (Value (Str ''http://short.ly/yo82mvy''),
       \<lparr>baseUrl = ''short.ly'',
        collection =
          [([], \<lparr>longUrl = ''http://example.com/a'', hitCount = 0, active = True\<rparr>),
           (''yo82mvy'',
            \<lparr>longUrl = ''http://example.com/a'', hitCount = 0, active = True\<rparr>)]\<rparr>)"
  using random_half random_example add_half add_after_half
  by (simp only: empty_alias_store_def duplicate_store_def simp_thms)

text \<open>
  C4, as amended.  Take a record stored under an alias, and any run of calls in which no
  \<open>add\<close> draws that very alias for a new record.  At the end of the run the record is
  still stored under the alias, with the same long url, and its hit count is what it was
  plus the number of successful \<open>query\<close> calls on the alias in the run, as long as this
  sum is at most \<open>2^53\<close>, where \<open>count + 1\<close> is exact: nothing else changes it, a
  \<open>remove\<close> and a later \<open>add\<close> of the same long url included.  \<open>count\<close> on a short
  url with that alias returns this hit count; and when no record of the store has the empty
  alias, \<open>count\<close> on a long url with the record's fold returns it too.
\<close>

theorem hit_count_persists:
  assumes "is_toLowerCase toLowerCase"
    and "reachable toLowerCase this" and "map_of (collection this) alias = Some record"
    and "list_all legal cs" and "collision_free toLowerCase alias cs this"
    and "hitCount record + hits toLowerCase alias cs this \<le> 2 ^ 53"
  shows "\<exists>this' record'.
     run toLowerCase cs this = Inr this' \<and> map_of (collection this') alias = Some record' \<and>
     longUrl record' = longUrl record \<and>
     hitCount record' = hitCount record + hits toLowerCase alias cs this \<and>
     (\<forall>short. urlSyntaxError toLowerCase short = Inr None \<and> isSameOrigin toLowerCase this short \<and>
        nth_opt (split CHR ''/'' short) 3 = Some alias \<longrightarrow>
        count toLowerCase short this' = Inr (Value (Num (hitCount record')), this')) \<and>
     (no_empty_alias this' \<longrightarrow>
        (\<forall>u. toLowerCase u = longUrl record \<longrightarrow>
           count toLowerCase u this' = Inr (Value (Num (hitCount record')), this')))"
proof -
  note f = assms(1)
  from assms(2) have i: "inv toLowerCase this" by (rule reachable_inv)
  from record_run [OF f i assms(3-5)] obtain this' e'
    where r: "run toLowerCase cs this = Inr this'" "inv toLowerCase this'" "baseUrl this' = baseUrl this"
      "map_of (collection this') alias = Some e'" "longUrl e' = longUrl record"
      "hitCount e' = (plus_one ^^ hits toLowerCase alias cs this) (hitCount record)"
    by blast
  from r(6) assms(6) have h: "hitCount e' = hitCount record + hits toLowerCase alias cs this"
    by (simp add: funpow_plus_one)
  from f assms(2,4) r(1) have re: "reachable toLowerCase this'" by (rule reachable_run)
  have s: "count toLowerCase short this' = Inr (Value (Num (hitCount e')), this')"
    if "urlSyntaxError toLowerCase short = Inr None" "isSameOrigin toLowerCase this short"
      "nth_opt (split CHR ''/'' short) 3 = Some alias" for short
  proof -
    from that(2) r(3) have "isSameOrigin toLowerCase this' short" by (simp add: isSameOrigin_iff)
    with that(1) show ?thesis using that(3) r(4) by (rule count_short)
  qed
  have l: "count toLowerCase u this' = Inr (Value (Num (hitCount e')), this')"
    if "no_empty_alias this'" "toLowerCase u = longUrl record" for u
  proof -
    from re that(1) have "unique_urls (collection this')" by (rule reachable_unique)
    with f r(2) show ?thesis using r(4) that(2) r(5) by (simp add: count_long)
  qed
  from r(1,4,5) h s l show ?thesis by blast
qed

theorem hit_count_persists_witness:
  "is_toLowerCase latin1_toLowerCase \<and> reachable latin1_toLowerCase example_store \<and>
   map_of (collection example_store) ''yo82mvy'' =
     Some \<lparr>longUrl = ''http://example.com/a'', hitCount = 0, active = True\<rparr> \<and>
   list_all legal [Query ''http://short.ly/yo82mvy'', Remove ''http://Example.com/a'',
     Add ''0.4fzyo82mvyr'' ''http://Example.com/a''] \<and>
   collision_free latin1_toLowerCase ''yo82mvy'' [Query ''http://short.ly/yo82mvy'', Remove ''http://Example.com/a'',
     Add ''0.4fzyo82mvyr'' ''http://Example.com/a''] example_store \<and>
   run latin1_toLowerCase [Query ''http://short.ly/yo82mvy'', Remove ''http://Example.com/a'',
     Add ''0.4fzyo82mvyr'' ''http://Example.com/a''] example_store = Inr queried_store \<and>
   hits latin1_toLowerCase ''yo82mvy'' [Query ''http://short.ly/yo82mvy'', Remove ''http://Example.com/a'',
     Add ''0.4fzyo82mvyr'' ''http://Example.com/a''] example_store = 1 \<and>
   (1::nat) \<le> 2 ^ 53 \<and>
   urlSyntaxError latin1_toLowerCase ''http://short.ly/yo82mvy'' = Inr None \<and>
   isSameOrigin latin1_toLowerCase example_store ''http://short.ly/yo82mvy'' \<and>
   nth_opt (split CHR ''/'' ''http://short.ly/yo82mvy'') 3 = Some ''yo82mvy'' \<and>
   no_empty_alias queried_store \<and>
   count latin1_toLowerCase ''http://short.ly/yo82mvy'' queried_store = Inr (Value (Num 1), queried_store) \<and>
   count latin1_toLowerCase ''http://Example.com/a'' queried_store = Inr (Value (Num 1), queried_store)"
proof -
  let ?sh = "''http://short.ly/yo82mvy''"
  let ?cs = "[Query ?sh, Remove ''http://Example.com/a'',
     Add ''0.4fzyo82mvyr'' ''http://Example.com/a'']"
  let ?rec = "\<lparr>longUrl = ''http://example.com/a'', hitCount = 0, active = True\<rparr>"
  have m: "map_of (collection example_store) ''yo82mvy'' = Some ?rec"
    by (simp add: example_store_def)
  have l: "list_all legal ?cs" by (simp add: random_example)
  have c: "collision_free latin1_toLowerCase ''yo82mvy'' ?cs example_store"
    by (simp add: query_example remove_long_queried add_again not_creates_again)
  have r: "run latin1_toLowerCase ?cs example_store = Inr queried_store"
    by (simp add: query_example remove_long_queried add_again)
  have h: "hits latin1_toLowerCase ''yo82mvy'' ?cs example_store = 1"
    by (simp add: query_example remove_long_queried add_again nth_opt_def)
  have o: "isSameOrigin latin1_toLowerCase example_store ?sh"
    by (simp add: isSameOrigin_def lower_alias nth_opt_def example_store_def)
  have f: "nth_opt (split CHR ''/'' ?sh) 3 = Some ''yo82mvy''"
    by (simp add: nth_opt_def)
  have n: "no_empty_alias queried_store"
    by (simp add: no_empty_alias_def queried_store_def)
  have bd: "hitCount ?rec + hits latin1_toLowerCase ''yo82mvy'' ?cs example_store \<le> 2 ^ 53"
    by (simp only: h) simp
  from hit_count_persists [OF latin1_is_toLowerCase example_store_reachable m l c bd] r h
  obtain e
    where e: "map_of (collection queried_store) ''yo82mvy'' = Some e" "hitCount e = 1"
      and s: "\<forall>short. urlSyntaxError latin1_toLowerCase short = Inr None \<and> isSameOrigin latin1_toLowerCase example_store short \<and>
        nth_opt (split CHR ''/'' short) 3 = Some ''yo82mvy'' \<longrightarrow>
        count latin1_toLowerCase short queried_store = Inr (Value (Num (hitCount e)), queried_store)"
      and u: "no_empty_alias queried_store \<longrightarrow>
        (\<forall>u. latin1_toLowerCase u = longUrl ?rec \<longrightarrow>
           count latin1_toLowerCase u queried_store = Inr (Value (Num (hitCount e)), queried_store))"
    by auto
  from s valid_alias o f e(2)
  have cs: "count latin1_toLowerCase ?sh queried_store = Inr (Value (Num 1), queried_store)" by simp
  have "latin1_toLowerCase ''http://Example.com/a'' = longUrl ?rec" by (simp add: lower_example_a)
  with u n e(2)
  have cl: "count latin1_toLowerCase ''http://Example.com/a'' queried_store = Inr (Value (Num 1), queried_store)"
    by simp
  have "(1::nat) \<le> 2 ^ 53" by simp
  with latin1_is_toLowerCase example_store_reachable m l c r h valid_alias o f n cs cl
  show ?thesis by blast
qed

theorem hit_count_persists_counterexample:
  "reachable latin1_toLowerCase example_store \<and> random_base36 ''0.9q1yo82mvy3'' \<and>
   query latin1_toLowerCase ''http://short.ly/yo82mvy'' example_store =
     Inr (Value (Str ''http://example.com/a''),
       \<lparr>baseUrl = ''short.ly'',
        collection = [(''yo82mvy'',
          \<lparr>longUrl = ''http://example.com/a'', hitCount = 1, active = True\<rparr>)]\<rparr>) \<and>
   add latin1_toLowerCase ''0.9q1yo82mvy3'' ''http://other.org/b''
     \<lparr>baseUrl = ''short.ly'',
      collection = [(''yo82mvy'',
        \<lparr>longUrl = ''http://example.com/a'', hitCount = 1, active = True\<rparr>)]\<rparr> =
     Inr (Value (Str ''http://short.ly/yo82mvy''),
       \<lparr>baseUrl = ''short.ly'',
        collection = [(''yo82mvy'',
          \<lparr>longUrl = ''http://other.org/b'', hitCount = 0, active = True\<rparr>)]\<rparr>) \<and>
   count latin1_toLowerCase ''http://short.ly/yo82mvy''
     \<lparr>baseUrl = ''short.ly'',
      collection = [(''yo82mvy'',
        \<lparr>longUrl = ''http://other.org/b'', hitCount = 0, active = True\<rparr>)]\<rparr> =
     Inr (Value (Num 0),
       \<lparr>baseUrl = ''short.ly'',
        collection = [(''yo82mvy'',
          \<lparr>longUrl = ''http://other.org/b'', hitCount = 0, active = True\<rparr>)]\<rparr>) \<and>
   count latin1_toLowerCase ''http://example.com/a''
     \<lparr>baseUrl = ''short.ly'',
      collection = [(''yo82mvy'',
        \<lparr>longUrl = ''http://other.org/b'', hitCount = 0, active = True\<rparr>)]\<rparr> =
     Inr (Error ''NOT_FOUND'' ''url was never registered for this service'',
       \<lparr>baseUrl = ''short.ly'',
        collection = [(''yo82mvy'',
          \<lparr>longUrl = ''http://other.org/b'', hitCount = 0, active = True\<rparr>)]\<rparr>)"
  using example_store_reachable random_collision query_example add_collision_queried
    count_other count_example_other
  by (simp only: queried_store_def other_store_def simp_thms)

text \<open>
  C5.  On a well-formed url, \<open>query\<close> fails with \<open>DOMAIN\<close> when the fold of the
  authority is not the configured domain.  Otherwise the fourth piece of the url is the
  alias: the result is \<open>NOT_FOUND\<close> when the url has no such piece, when no record is
  stored under the alias, or when the record is inactive; and else the result is the
  record's long url, and the store changes in that record's hit count alone, which goes up
  by one (as long as it is below \<open>2^53\<close>, where \<open>count + 1\<close> is exact).  Every stored
  long url is the fold of a well-formed url.
\<close>

theorem query_behaviour:
  assumes "is_toLowerCase toLowerCase"
    and "reachable toLowerCase this" and "urlSyntaxError toLowerCase url = Inr None"
    and "nth_opt (split CHR ''/'' url) 2 = Some authority"
  shows "query toLowerCase url this =
     (if toLowerCase authority \<noteq> baseUrl this
      then Inr (Error ''DOMAIN'' ''shortUrl domain is not equal to SHORTENER_DOMAIN'', this)
      else (case nth_opt (split CHR ''/'' url) 3 of
              None \<Rightarrow> Inr (Error ''NOT_FOUND'' (''NOT_FOUND: '' @ url @ '' not found''), this)
            | Some alias \<Rightarrow>
                (case map_of (collection this) alias of
                   None \<Rightarrow> Inr (Error ''NOT_FOUND'' (''NOT_FOUND: '' @ url @ '' not found''), this)
                 | Some record \<Rightarrow>
                     if \<not> active record
                     then Inr (Error ''NOT_FOUND'' (''NOT_FOUND: '' @ url @ '' not found''), this)
                     else Inr (Value (Str (longUrl record)),
                            this\<lparr>collection :=
                              map (\<lambda>entry. if fst entry = alias
                                     then (alias, record\<lparr>hitCount :=
                                            if hitCount record < 2 ^ 53
                                            then hitCount record + 1 else hitCount record\<rparr>)
                                     else entry)
                                (collection this)\<rparr>)))) \<and>
     (\<forall>alias record. map_of (collection this) alias = Some record \<longrightarrow>
        (\<exists>u. longUrl record = toLowerCase u \<and> urlSyntaxError toLowerCase u = Inr None))"
proof -
  from assms(2) have i: "inv toLowerCase this" by (rule reachable_inv)
  then have d: "distinct (map fst (collection this))" by (simp add: inv_def)
  have ok: "\<exists>u. longUrl e = toLowerCase u \<and> urlSyntaxError toLowerCase u = Inr None"
    if "map_of (collection this) k = Some e" for k e
    using inv_entry [OF i that] by (auto simp: entry_ok_def)
  have ne: "longUrl e \<noteq> []" if "map_of (collection this) k = Some e" for k e
    using ok [OF that] by (auto dest: valid_fold_not_Nil)
  have s: "isSameOrigin toLowerCase this url = (toLowerCase authority = baseUrl this)"
    using assms(1,4) by (rule authority_lower)
  have "query toLowerCase url this =
     (if toLowerCase authority \<noteq> baseUrl this
      then Inr (Error ''DOMAIN'' ''shortUrl domain is not equal to SHORTENER_DOMAIN'', this)
      else (case nth_opt (split CHR ''/'' url) 3 of
              None \<Rightarrow> Inr (Error ''NOT_FOUND'' (''NOT_FOUND: '' @ url @ '' not found''), this)
            | Some alias \<Rightarrow>
                (case map_of (collection this) alias of
                   None \<Rightarrow> Inr (Error ''NOT_FOUND'' (''NOT_FOUND: '' @ url @ '' not found''), this)
                 | Some record \<Rightarrow>
                     if \<not> active record
                     then Inr (Error ''NOT_FOUND'' (''NOT_FOUND: '' @ url @ '' not found''), this)
                     else Inr (Value (Str (longUrl record)),
                            this\<lparr>collection :=
                              map (\<lambda>entry. if fst entry = alias
                                     then (alias, record\<lparr>hitCount :=
                                            if hitCount record < 2 ^ 53
                                            then hitCount record + 1 else hitCount record\<rparr>)
                                     else entry)
                                (collection this)\<rparr>))))"
    using assms(3) s ne d
    by (auto simp: query_def queryNotFound_def map_set_existing plus_one_def
        split: option.splits)
  with ok show ?thesis by blast
qed

theorem query_behaviour_witness:
  "is_toLowerCase latin1_toLowerCase \<and> reachable latin1_toLowerCase accent_domain_store \<and>
   urlSyntaxError latin1_toLowerCase accent_short = Inr None \<and>
   nth_opt (split CHR ''/'' accent_short) 2 = Some (CHR 0xC9 # ''.LY'') \<and>
   query latin1_toLowerCase accent_short accent_domain_store =
     Inr (Value (Str ''http://example.com/a''),
          \<lparr>baseUrl = accent_domain,
           collection = [(''yo82mvy'',
             \<lparr>longUrl = ''http://example.com/a'', hitCount = 1, active = True\<rparr>)]\<rparr>)"
proof -
  from query_behaviour [OF latin1_is_toLowerCase accent_domain_store_reachable
      valid_accent_short authority_accent_short]
  have "query latin1_toLowerCase accent_short accent_domain_store =
     Inr (Value (Str ''http://example.com/a''),
          \<lparr>baseUrl = accent_domain,
           collection = [(''yo82mvy'',
             \<lparr>longUrl = ''http://example.com/a'', hitCount = 1, active = True\<rparr>)]\<rparr>)"
    by (simp add: lower_accent_authority alias_accent_short accent_domain_store_def)
  with latin1_is_toLowerCase accent_domain_store_reachable valid_accent_short
    authority_accent_short
  show ?thesis by simp
qed

text \<open>
  C6, as amended.  On a well-formed url, \<open>remove\<close> looks a url of the store's own domain
  up by its fourth piece, the alias, and any other url by its fold among the
  long urls.  When a record matches it sets \<open>active\<close> to false on the matching records,
  changes nothing else and returns the empty object, whether or not the record was active;
  when none matches it fails with \<open>NOT_FOUND\<close>.  After a successful \<open>remove\<close> of a
  short url, \<open>query\<close> on it fails with \<open>NOT_FOUND\<close>, and goes on failing through any
  further calls, as long as none of them adds the same long url and no \<open>add\<close> among them
  draws that very alias for a new record; an \<open>add\<close> of the same long url then makes
  \<open>query\<close> on the short url succeed again, with that long url.
\<close>

theorem remove_behaviour:
  assumes "is_toLowerCase toLowerCase"
    and "reachable toLowerCase this" and "urlSyntaxError toLowerCase url = Inr None"
  shows "remove toLowerCase url this =
     (if isSameOrigin toLowerCase this url
      then (case nth_opt (split CHR ''/'' url) 3 of
              None \<Rightarrow> Inr (Error ''NOT_FOUND'' ''url was never registered for this service'', this)
            | Some alias \<Rightarrow>
                (case map_of (collection this) alias of
                   None \<Rightarrow>
                     Inr (Error ''NOT_FOUND'' ''url was never registered for this service'', this)
                 | Some record \<Rightarrow>
                     Inr (Empty,
                       this\<lparr>collection :=
                         map (\<lambda>entry. if fst entry = alias
                                then (alias, record\<lparr>active := False\<rparr>)
                                else entry)
                           (collection this)\<rparr>)))
      else if filter (\<lambda>entry. longUrl (snd entry) = toLowerCase url) (collection this) = []
      then Inr (Error ''NOT_FOUND'' ''url was never registered for this service'', this)
      else Inr (Empty,
             this\<lparr>collection :=
               map (\<lambda>entry. if longUrl (snd entry) = toLowerCase url
                      then (fst entry, (snd entry)\<lparr>active := False\<rparr>)
                      else entry)
                 (collection this)\<rparr>)) \<and>
     (\<forall>this1 alias record cs.
        isSameOrigin toLowerCase this url \<and> remove toLowerCase url this = Inr (Empty, this1) \<and>
        nth_opt (split CHR ''/'' url) 3 = Some alias \<and>
        map_of (collection this) alias = Some record \<and>
        list_all legal cs \<and> collision_free toLowerCase alias cs this1 \<and>
        list_all (\<lambda>c. \<not> adds_url toLowerCase (longUrl record) c) cs \<longrightarrow>
        (\<exists>this2. run toLowerCase cs this1 = Inr this2 \<and>
           query toLowerCase url this2 =
             Inr (Error ''NOT_FOUND'' (''NOT_FOUND: '' @ url @ '' not found''), this2) \<and>
           (\<forall>rnd u. toLowerCase u = longUrl record \<longrightarrow>
              (\<exists>short this3 this4.
                 add toLowerCase rnd u this2 = Inr (Value (Str short), this3) \<and>
                 query toLowerCase url this3 = Inr (Value (Str (longUrl record)), this4)))))"
proof -
  note f = assms(1) and valid = assms(3)
  from assms(2) have i: "inv toLowerCase this" by (rule reachable_inv)
  then have d: "distinct (map fst (collection this))" by (simp add: inv_def)
  have first: "remove toLowerCase url this =
     (if isSameOrigin toLowerCase this url
      then (case nth_opt (split CHR ''/'' url) 3 of
              None \<Rightarrow> Inr (Error ''NOT_FOUND'' ''url was never registered for this service'', this)
            | Some alias \<Rightarrow>
                (case map_of (collection this) alias of
                   None \<Rightarrow>
                     Inr (Error ''NOT_FOUND'' ''url was never registered for this service'', this)
                 | Some record \<Rightarrow>
                     Inr (Empty,
                       this\<lparr>collection :=
                         map (\<lambda>entry. if fst entry = alias
                                then (alias, record\<lparr>active := False\<rparr>)
                                else entry)
                           (collection this)\<rparr>)))
      else if filter (\<lambda>entry. longUrl (snd entry) = toLowerCase url) (collection this) = []
      then Inr (Error ''NOT_FOUND'' ''url was never registered for this service'', this)
      else Inr (Empty,
             this\<lparr>collection :=
               map (\<lambda>entry. if longUrl (snd entry) = toLowerCase url
                      then (fst entry, (snd entry)\<lparr>active := False\<rparr>)
                      else entry)
                 (collection this)\<rparr>))"
  proof (cases "isSameOrigin toLowerCase this url")
    case True
    from no_match_same_origin [OF i True] valid d True show ?thesis
      by (auto simp: remove_valid by_alias_def notFound_def map_set_existing
          split: option.splits)
  next
    case False
    with valid d show ?thesis
      by (simp add: remove_valid by_alias_def notFound_def matching_def set_active_def)
  qed
  have second: "\<exists>this2. run toLowerCase cs this1 = Inr this2 \<and>
           query toLowerCase url this2 =
             Inr (Error ''NOT_FOUND'' (''NOT_FOUND: '' @ url @ '' not found''), this2) \<and>
           (\<forall>rnd u. toLowerCase u = longUrl rec \<longrightarrow>
              (\<exists>short this3 this4.
                 add toLowerCase rnd u this2 = Inr (Value (Str short), this3) \<and>
                 query toLowerCase url this3 = Inr (Value (Str (longUrl rec)), this4)))"
    if h: "isSameOrigin toLowerCase this url" "remove toLowerCase url this = Inr (Empty, this1)"
      "nth_opt (split CHR ''/'' url) 3 = Some key"
      "map_of (collection this) key = Some rec"
      "list_all legal cs" "collision_free toLowerCase key cs this1"
      "list_all (\<lambda>c. \<not> adds_url toLowerCase (longUrl rec) c) cs"
    for this1 key rec cs
  proof -
    from h(1,3,4) have "by_alias toLowerCase this url = Some (key, rec)"
      by (simp add: by_alias_Some_iff)
    with valid d h(2)
    have t1: "this1 = this\<lparr>collection :=
        map_set key (rec\<lparr>active := False\<rparr>) (collection this)\<rparr>"
      by (simp add: remove_valid)
    have i1: "inv toLowerCase this1" and b1: "baseUrl this1 = baseUrl this"
      using inv_remove [OF i h(2)] by simp_all
    from t1 have r1: "map_of (collection this1) key = Some (rec\<lparr>active := False\<rparr>)"
      by simp
    from record_run [OF f i1 r1 h(5,6)] h(7) obtain this2 e2
      where r2: "run toLowerCase cs this1 = Inr this2" "inv toLowerCase this2" "baseUrl this2 = baseUrl this1"
        "map_of (collection this2) key = Some e2" "longUrl e2 = longUrl rec"
        "\<not> active e2"
      by auto
    from h(1) b1 r2(3) have s2: "isSameOrigin toLowerCase this2 url" by (simp add: isSameOrigin_iff)
    from valid s2 h(3) r2(4,6)
    have q: "query toLowerCase url this2 =
        Inr (Error ''NOT_FOUND'' (''NOT_FOUND: '' @ url @ '' not found''), this2)"
      by (simp add: query_def queryNotFound_def)
    have restore: "\<exists>short this3 this4.
        add toLowerCase rnd u this2 = Inr (Value (Str short), this3) \<and>
        query toLowerCase url this3 = Inr (Value (Str (longUrl rec)), this4)"
      if u: "toLowerCase u = longUrl rec" for rnd u
    proof -
      from r2(2) have d2: "distinct (map fst (collection this2))" by (simp add: inv_def)
      from u r2(5) have u2: "toLowerCase u = longUrl e2" by simp
      from long_form [OF f r2(2,4) u2] have v: "urlSyntaxError toLowerCase u = Inr None"
        and n: "\<not> isSameOrigin toLowerCase this2 u" by simp_all
      define this3 where "this3 = this2\<lparr>collection := add_collection toLowerCase rnd u this2\<rparr>"
      from add_valid [OF v n d2, of rnd]
      have a: "\<exists>short. add toLowerCase rnd u this2 = Inr (Value (Str short), this3)"
        by (simp add: this3_def)
      have "\<exists>e3. map_of (collection this3) key = Some e3 \<and> longUrl e3 = longUrl rec \<and>
          active e3"
        using r2(4) u2 u
        by (auto simp: this3_def add_collection_def map_of_set_active split: option.splits)
      then obtain e3 where e3: "map_of (collection this3) key = Some e3"
        "longUrl e3 = longUrl rec" "active e3" by blast
      from v u have "longUrl rec \<noteq> []" by (auto dest: valid_fold_not_Nil)
      moreover from s2 have "isSameOrigin toLowerCase this3 url" by (simp add: isSameOrigin_iff this3_def)
      ultimately have "\<exists>this4. query toLowerCase url this3 = Inr (Value (Str (longUrl rec)), this4)"
        using valid h(3) e3 by (simp add: query_def)
      with a show ?thesis by blast
    qed
    from r2(1) q restore show ?thesis by blast
  qed
  from first second show ?thesis by blast
qed

theorem remove_behaviour_witness:
  "is_toLowerCase latin1_toLowerCase \<and> reachable latin1_toLowerCase accent_store \<and>
   urlSyntaxError latin1_toLowerCase ''http://short.ly/yo82mvy'' = Inr None \<and>
   isSameOrigin latin1_toLowerCase accent_store ''http://short.ly/yo82mvy'' \<and>
   remove latin1_toLowerCase ''http://short.ly/yo82mvy'' accent_store =
     Inr (Empty, accent_inactive_store) \<and>
   nth_opt (split CHR ''/'' ''http://short.ly/yo82mvy'') 3 = Some ''yo82mvy'' \<and>
   map_of (collection accent_store) ''yo82mvy'' =
     Some \<lparr>longUrl = accent_folded, hitCount = 0, active = True\<rparr> \<and>
   list_all legal [Query ''http://short.ly/yo82mvy''] \<and>
   collision_free latin1_toLowerCase ''yo82mvy'' [Query ''http://short.ly/yo82mvy'']
     accent_inactive_store \<and>
   list_all (\<lambda>c. \<not> adds_url latin1_toLowerCase accent_folded c)
     [Query ''http://short.ly/yo82mvy''] \<and>
   latin1_toLowerCase accent_capitals = accent_folded \<and>
   (\<exists>this2. run latin1_toLowerCase [Query ''http://short.ly/yo82mvy''] accent_inactive_store =
        Inr this2 \<and>
      query latin1_toLowerCase ''http://short.ly/yo82mvy'' this2 =
        Inr (Error ''NOT_FOUND'' ''NOT_FOUND: http://short.ly/yo82mvy not found'', this2) \<and>
      (\<exists>short this3 this4.
         add latin1_toLowerCase ''0.4fzyo82mvyr'' accent_capitals this2 =
           Inr (Value (Str short), this3) \<and>
         query latin1_toLowerCase ''http://short.ly/yo82mvy'' this3 =
           Inr (Value (Str accent_folded), this4)))"
proof -
  let ?sh = "''http://short.ly/yo82mvy''"
  let ?rec = "\<lparr>longUrl = accent_folded, hitCount = 0, active = True\<rparr>"
  have o: "isSameOrigin latin1_toLowerCase accent_store ?sh"
    by (simp add: isSameOrigin_def lower_alias nth_opt_def accent_store_def)
  have p: "nth_opt (split CHR ''/'' ?sh) 3 = Some ''yo82mvy''"
    by (simp add: nth_opt_def)
  have m: "map_of (collection accent_store) ''yo82mvy'' = Some ?rec"
    by (simp add: accent_store_def)
  have l: "list_all legal [Query ?sh]" by simp
  have c: "collision_free latin1_toLowerCase ''yo82mvy'' [Query ?sh] accent_inactive_store"
    by (simp add: query_accent_inactive)
  have n: "list_all (\<lambda>c. \<not> adds_url latin1_toLowerCase accent_folded c) [Query ?sh]" by simp
  have prem: "isSameOrigin latin1_toLowerCase accent_store ?sh \<and>
      remove latin1_toLowerCase ?sh accent_store = Inr (Empty, accent_inactive_store) \<and>
      nth_opt (split CHR ''/'' ?sh) 3 = Some ''yo82mvy'' \<and>
      map_of (collection accent_store) ''yo82mvy'' = Some ?rec \<and>
      list_all legal [Query ?sh] \<and>
      collision_free latin1_toLowerCase ''yo82mvy'' [Query ?sh] accent_inactive_store \<and>
      list_all (\<lambda>c. \<not> adds_url latin1_toLowerCase (longUrl ?rec) c) [Query ?sh]"
    using o remove_short_accent p m l c n by simp
  note all = remove_behaviour [OF latin1_is_toLowerCase accent_store_reachable valid_alias,
      THEN conjunct2]
  note s = all [THEN spec [where x = accent_inactive_store], THEN spec [where x = "''yo82mvy''"],
      THEN spec [where x = ?rec], THEN spec [where x = "[Query ?sh]"], THEN mp, OF prem]
  from s obtain this2
    where r: "run latin1_toLowerCase [Query ?sh] accent_inactive_store = Inr this2"
    and q: "query latin1_toLowerCase ?sh this2 =
        Inr (Error ''NOT_FOUND'' (''NOT_FOUND: '' @ ?sh @ '' not found''), this2)"
    and a: "\<forall>rnd u. latin1_toLowerCase u = longUrl ?rec \<longrightarrow>
        (\<exists>short this3 this4.
           add latin1_toLowerCase rnd u this2 = Inr (Value (Str short), this3) \<and>
           query latin1_toLowerCase ?sh this3 = Inr (Value (Str (longUrl ?rec)), this4))"
    by blast
  have "latin1_toLowerCase accent_capitals = longUrl ?rec"
    by (simp add: lower_accent_capitals)
  with a have "\<exists>short this3 this4.
      add latin1_toLowerCase ''0.4fzyo82mvyr'' accent_capitals this2 =
        Inr (Value (Str short), this3) \<and>
      query latin1_toLowerCase ?sh this3 = Inr (Value (Str (longUrl ?rec)), this4)"
    by blast
  with r q have "\<exists>this2. run latin1_toLowerCase [Query ?sh] accent_inactive_store = Inr this2 \<and>
      query latin1_toLowerCase ?sh this2 =
        Inr (Error ''NOT_FOUND'' ''NOT_FOUND: http://short.ly/yo82mvy not found'', this2) \<and>
      (\<exists>short this3 this4.
         add latin1_toLowerCase ''0.4fzyo82mvyr'' accent_capitals this2 =
           Inr (Value (Str short), this3) \<and>
         query latin1_toLowerCase ?sh this3 = Inr (Value (Str accent_folded), this4))"
    by auto
  with latin1_is_toLowerCase accent_store_reachable valid_alias o remove_short_accent p m l c n
    lower_accent_capitals
  show ?thesis by blast
qed

theorem remove_behaviour_counterexample:
  "reachable latin1_toLowerCase example_store \<and> random_base36 ''0.9q1yo82mvy3'' \<and>
   remove latin1_toLowerCase ''http://short.ly/yo82mvy'' example_store =
     Inr (Empty,
       \<lparr>baseUrl = ''short.ly'',
        collection = [(''yo82mvy'',
          \<lparr>longUrl = ''http://example.com/a'', hitCount = 0, active = False\<rparr>)]\<rparr>) \<and>
   add latin1_toLowerCase ''0.9q1yo82mvy3'' ''http://other.org/b''
     \<lparr>baseUrl = ''short.ly'',
      collection = [(''yo82mvy'',
        \<lparr>longUrl = ''http://example.com/a'', hitCount = 0, active = False\<rparr>)]\<rparr> =
     Inr (Value (Str ''http://short.ly/yo82mvy''),
       \<lparr>baseUrl = ''short.ly'',
        collection = [(''yo82mvy'',
          \<lparr>longUrl = ''http://other.org/b'', hitCount = 0, active = True\<rparr>)]\<rparr>) \<and>
   query latin1_toLowerCase ''http://short.ly/yo82mvy''
     \<lparr>baseUrl = ''short.ly'',
      collection = [(''yo82mvy'',
        \<lparr>longUrl = ''http://other.org/b'', hitCount = 0, active = True\<rparr>)]\<rparr> =
     Inr (Value (Str ''http://other.org/b''),
       \<lparr>baseUrl = ''short.ly'',
        collection = [(''yo82mvy'',
          \<lparr>longUrl = ''http://other.org/b'', hitCount = 1, active = True\<rparr>)]\<rparr>)"
  using example_store_reachable random_collision remove_short_example add_collision_inactive
    query_other
  by (simp only: inactive_store_def other_store_def simp_thms)

text \<open>
  C7.  On a well-formed url, \<open>count\<close> never fails with \<open>DOMAIN\<close>.  For a url of the
  store's own domain it looks the fourth piece up as an alias; for any other url it
  searches the records for one whose long url is the fold of the url (the last one in
  insertion order, should there be several).  It returns the hit count of the record found,
  active or not, and fails with \<open>NOT_FOUND\<close> when there is none; the store is unchanged.
\<close>

theorem count_behaviour:
  assumes "reachable toLowerCase this" and "urlSyntaxError toLowerCase url = Inr None"
  shows "\<exists>r. count toLowerCase url this = Inr (r, this) \<and> error_code r \<noteq> Some ''DOMAIN'' \<and>
     r = (if isSameOrigin toLowerCase this url
          then (case nth_opt (split CHR ''/'' url) 3 of
                  None \<Rightarrow> Error ''NOT_FOUND'' ''url was never registered for this service''
                | Some alias \<Rightarrow>
                    (case map_of (collection this) alias of
                       None \<Rightarrow> Error ''NOT_FOUND'' ''url was never registered for this service''
                     | Some record \<Rightarrow> Value (Num (hitCount record))))
          else (case filter (\<lambda>entry. longUrl (snd entry) = toLowerCase url) (collection this) of
                  [] \<Rightarrow> Error ''NOT_FOUND'' ''url was never registered for this service''
                | m # ms \<Rightarrow> Value (Num (hitCount (snd (last (m # ms)))))))"
proof -
  from assms(1) have i: "inv toLowerCase this" by (rule reachable_inv)
  show ?thesis
  proof (cases "isSameOrigin toLowerCase this url")
    case True
    from no_match_same_origin [OF i True] assms(2) True show ?thesis
      by (auto simp: count_valid by_alias_def notFound_def split: option.splits)
  next
    case False
    with assms(2) show ?thesis
      by (auto simp: count_valid by_alias_def notFound_def matching_def split: list.splits)
  qed
qed

theorem count_behaviour_witness:
  "reachable latin1_toLowerCase accent_store \<and>
   urlSyntaxError latin1_toLowerCase accent_capitals = Inr None \<and>
   count latin1_toLowerCase accent_capitals accent_store = Inr (Value (Num 0), accent_store)"
proof -
  have c: "collection accent_store =
      [(''yo82mvy'', \<lparr>longUrl = accent_folded, hitCount = 0, active = True\<rparr>)]"
    by (simp add: accent_store_def)
  from count_behaviour [OF accent_store_reachable valid_accent_capitals] show ?thesis
    by (auto simp: accent_store_reachable valid_accent_capitals not_same_origin_accent c
        lower_accent_capitals)
qed

text \<open>
  C8.  Every method starts with the syntax check: whatever the store, a call returns the
  \<open>URL_SYNTAX\<close> error exactly when its url does not begin, ignoring case, with
  \<open>http://\<close> or \<open>https://\<close>, or its third piece between slashes is empty or has no
  dot; and it then returns before any other check and leaves the store as it was.
\<close>

theorem url_syntax_checked_first:
  assumes "is_toLowerCase toLowerCase"
  shows "\<exists>r this'. exec toLowerCase c this = Inr (r, this') \<and>
      (error_code r = Some ''URL_SYNTAX'') = spec_syntax_invalid toLowerCase (url_of c) \<and>
      (spec_syntax_invalid toLowerCase (url_of c) \<longrightarrow> r = syntaxError (url_of c) \<and> this' = this)"
proof (cases "urlSyntaxError toLowerCase (url_of c) = Inr None")
  case True
  from exec_valid_outcome [OF True, of this] True show ?thesis
    by (auto simp: spec_syntax_invalid_iff)
next
  case False
  from exec_invalid [OF assms False, of this] False show ?thesis
    by (auto simp: spec_syntax_invalid_iff)
qed

theorem url_syntax_checked_first_witness:
  "is_toLowerCase latin1_toLowerCase \<and> spec_syntax_invalid latin1_toLowerCase ''short.ly/bad'' \<and>
   exec latin1_toLowerCase (Add ''0.4fzyo82mvyr'' ''short.ly/bad'') example_store =
     Inr (Error ''URL_SYNTAX'' ''URL_SYNTAX: bad url short.ly/bad'', example_store)"
  using url_syntax_checked_first [OF latin1_is_toLowerCase,
      of "Add ''0.4fzyo82mvyr'' ''short.ly/bad''" example_store]
  by (auto simp: invalid_example syntaxError_def latin1_is_toLowerCase)

text \<open>
  C9.  A call that returns an error object leaves the store exactly as it was, and the
  error's code is one of \<open>URL_SYNTAX\<close>, \<open>DOMAIN\<close> and \<open>NOT_FOUND\<close>.
\<close>

theorem failure_leaves_store_unchanged:
  assumes "exec toLowerCase c this = Inr (r, this')" and "error_code r = Some code"
  shows "this' = this \<and> code \<in> {''URL_SYNTAX'', ''DOMAIN'', ''NOT_FOUND''}"
proof (cases "urlSyntaxError toLowerCase (url_of c) = Inr None")
  case True
  from exec_valid_outcome [OF True, of this] assms show ?thesis by auto
next
  case False
  from exec_rejected [OF assms(1) False] assms(2) show ?thesis by auto
qed

theorem failure_leaves_store_unchanged_witness:
  "exec latin1_toLowerCase (Remove ''http://example.com/b'') example_store =
     Inr (notFound, example_store) \<and>
   error_code notFound = Some ''NOT_FOUND'' \<and>
   example_store = example_store \<and> ''NOT_FOUND'' \<in> {''URL_SYNTAX'', ''DOMAIN'', ''NOT_FOUND''}"
  using failure_leaves_store_unchanged [of latin1_toLowerCase
      "Remove ''http://example.com/b''" example_store notFound example_store "''NOT_FOUND''"]
  by (simp add: remove_example_b)

text \<open>
  C10.  The four methods return a result on every string, whatever the store: none raises.
  The syntax check reads the third piece of the url only after the prefix test has passed,
  and a url with that prefix has a third piece.  On a well-formed url of the store's own
  domain that has no fourth piece, \<open>query\<close>, \<open>count\<close> and \<open>remove\<close> answer
  \<open>NOT_FOUND\<close> and leave the store as it was.
\<close>

theorem operations_total:
  assumes "is_toLowerCase toLowerCase"
  shows
  "(\<exists>r this'. add toLowerCase rnd url this = Inr (r, this')) \<and>
   (\<exists>r this'. query toLowerCase url this = Inr (r, this')) \<and>
   (\<exists>r this'. count toLowerCase url this = Inr (r, this')) \<and>
   (\<exists>r this'. remove toLowerCase url this = Inr (r, this')) \<and>
   (\<exists>v. urlSyntaxError toLowerCase url = Inr v) \<and>
   (startsWith (toLowerCase url) ''http://'' \<or> startsWith (toLowerCase url) ''https://'' \<longrightarrow>
      (\<exists>authority. nth_opt (split CHR ''/'' url) 2 = Some authority)) \<and>
   (reachable toLowerCase this \<and> urlSyntaxError toLowerCase url = Inr None \<and> isSameOrigin toLowerCase this url \<and>
    nth_opt (split CHR ''/'' url) 3 = None \<longrightarrow>
      (\<exists>m. query toLowerCase url this = Inr (Error ''NOT_FOUND'' m, this)) \<and>
      count toLowerCase url this = Inr (Error ''NOT_FOUND'' ''url was never registered for this service'', this) \<and>
      remove toLowerCase url this = Inr (Error ''NOT_FOUND'' ''url was never registered for this service'', this))"
proof -
  have a: "\<exists>r this'. add toLowerCase rnd url this = Inr (r, this')"
    using exec_total [OF assms, of "Add rnd url" this] by simp
  have q: "\<exists>r this'. query toLowerCase url this = Inr (r, this')"
    using exec_total [OF assms, of "Query url" this] by simp
  have c: "\<exists>r this'. count toLowerCase url this = Inr (r, this')"
    using exec_total [OF assms, of "Count url" this] by simp
  have r: "\<exists>r this'. remove toLowerCase url this = Inr (r, this')"
    using exec_total [OF assms, of "Remove url" this] by simp
  have s: "\<exists>v. urlSyntaxError toLowerCase url = Inr v"
    using urlSyntaxError_total [OF assms, of url] by auto
  have p: "startsWith (toLowerCase url) ''http://'' \<or> startsWith (toLowerCase url) ''https://'' \<longrightarrow>
      (\<exists>authority. nth_opt (split CHR ''/'' url) 2 = Some authority)"
    using http_prefix_three [OF assms, of url] by (simp add: http_prefix_def)
  have n: "(\<exists>m. query toLowerCase url this = Inr (Error ''NOT_FOUND'' m, this)) \<and>
      count toLowerCase url this = Inr (Error ''NOT_FOUND'' ''url was never registered for this service'', this) \<and>
      remove toLowerCase url this = Inr (Error ''NOT_FOUND'' ''url was never registered for this service'', this)"
    if h: "reachable toLowerCase this" "urlSyntaxError toLowerCase url = Inr None" "isSameOrigin toLowerCase this url"
      "nth_opt (split CHR ''/'' url) 3 = None"
  proof -
    from h(1) have i: "inv toLowerCase this" by (rule reachable_inv)
    then have d: "distinct (map fst (collection this))" by (simp add: inv_def)
    from h(4) have b: "by_alias toLowerCase this url = None" by (simp add: by_alias_def)
    have m: "matching (toLowerCase url) (collection this) = []"
      using i h(3) by (rule no_match_same_origin)
    have "query toLowerCase url this = Inr (queryNotFound url, this)"
      using h by (simp add: query_def)
    moreover have "count toLowerCase url this = Inr (notFound, this)"
      using h(2) b m by (simp add: count_valid)
    moreover have "remove toLowerCase url this = Inr (notFound, this)"
      using h(2) d b m by (simp add: remove_valid)
    ultimately show ?thesis by (simp add: queryNotFound_def notFound_def)
  qed
  from a q c r s p n show ?thesis by blast
qed

theorem operations_total_witness:
  "is_toLowerCase latin1_toLowerCase \<and>
   reachable latin1_toLowerCase example_store \<and>
   urlSyntaxError latin1_toLowerCase ''http://short.ly'' = Inr None \<and>
   isSameOrigin latin1_toLowerCase example_store ''http://short.ly'' \<and>
   nth_opt (split CHR ''/'' ''http://short.ly'') 3 = None \<and>
   (\<exists>m. query latin1_toLowerCase ''http://short.ly'' example_store =
      Inr (Error ''NOT_FOUND'' m, example_store)) \<and>
   count latin1_toLowerCase ''http://short.ly'' example_store =
     Inr (Error ''NOT_FOUND'' ''url was never registered for this service'', example_store) \<and>
   remove latin1_toLowerCase ''http://short.ly'' example_store =
     Inr (Error ''NOT_FOUND'' ''url was never registered for this service'', example_store)"
proof -
  have h: "reachable latin1_toLowerCase example_store \<and>
      urlSyntaxError latin1_toLowerCase ''http://short.ly'' = Inr None \<and>
      isSameOrigin latin1_toLowerCase example_store ''http://short.ly'' \<and>
      nth_opt (split CHR ''/'' ''http://short.ly'') 3 = None"
    by (simp add: example_store_reachable valid_short same_origin_short nth_opt_def)
  with operations_total [OF latin1_is_toLowerCase, of "''0.i''" "''http://short.ly''"
      example_store] latin1_is_toLowerCase
  show ?thesis by blast
qed


end
